theory Spec2Isabelle
  imports Complex_Main
begin

text \<open>
  The shot sequencer of \<open>module/src/utils/CameraShotsManager.ts\<close>: the classes
  \<open>ShotsManager\<close> and \<open>AnimatedCamera\<close>, as functions on an explicit state. A method
  that can throw returns \<open>error + state\<close>; objects are held by reference in a store;
  the callbacks of the embedding application are recorded in a trace.
\<close>

section \<open>JavaScript numbers\<close>

text \<open>
  The sequencer computes with JavaScript numbers. A finite number is modelled by the
  real it denotes, so rounding is abstracted away; the three special values are kept,
  because the source divides without checking the divisor. The two zeros are
  identified (a quotient by zero takes its sign from the numerator alone).
\<close>

datatype jsnum = Fin real | PInf | NInf | NaN

fun js_neg :: "jsnum \<Rightarrow> jsnum" where
  "js_neg (Fin a) = Fin (- a)"
| "js_neg PInf = NInf"
| "js_neg NInf = PInf"
| "js_neg NaN = NaN"

fun js_add :: "jsnum \<Rightarrow> jsnum \<Rightarrow> jsnum" where
  "js_add NaN _ = NaN"
| "js_add _ NaN = NaN"
| "js_add (Fin a) (Fin b) = Fin (a + b)"
| "js_add PInf NInf = NaN"
| "js_add NInf PInf = NaN"
| "js_add PInf _ = PInf"
| "js_add _ PInf = PInf"
| "js_add NInf _ = NInf"
| "js_add _ NInf = NInf"

definition js_sub :: "jsnum \<Rightarrow> jsnum \<Rightarrow> jsnum" where
  "js_sub a b = js_add a (js_neg b)"

text \<open>The sign of a number as an infinity of that sign; zero and NaN give NaN.\<close>

fun js_signed_inf :: "jsnum \<Rightarrow> jsnum" where
  "js_signed_inf (Fin a) = (if a = 0 then NaN else if 0 < a then PInf else NInf)"
| "js_signed_inf PInf = PInf"
| "js_signed_inf NInf = NInf"
| "js_signed_inf NaN = NaN"

fun js_mul :: "jsnum \<Rightarrow> jsnum \<Rightarrow> jsnum" where
  "js_mul NaN _ = NaN"
| "js_mul _ NaN = NaN"
| "js_mul (Fin a) (Fin b) = Fin (a * b)"
| "js_mul PInf b = js_signed_inf b"
| "js_mul NInf b = js_neg (js_signed_inf b)"
| "js_mul a PInf = js_signed_inf a"
| "js_mul a NInf = js_neg (js_signed_inf a)"

fun js_div :: "jsnum \<Rightarrow> jsnum \<Rightarrow> jsnum" where
  "js_div NaN _ = NaN"
| "js_div _ NaN = NaN"
| "js_div (Fin a) (Fin b) = (if b = 0 then js_signed_inf (Fin a) else Fin (a / b))"
| "js_div (Fin a) _ = Fin 0"
| "js_div PInf (Fin b) = (if b < 0 then NInf else PInf)"
| "js_div NInf (Fin b) = (if b < 0 then PInf else NInf)"
| "js_div _ _ = NaN"

fun js_lt :: "jsnum \<Rightarrow> jsnum \<Rightarrow> bool" where
  "js_lt NaN _ = False"
| "js_lt _ NaN = False"
| "js_lt (Fin a) (Fin b) = (a < b)"
| "js_lt _ NInf = False"
| "js_lt PInf _ = False"
| "js_lt _ PInf = True"
| "js_lt NInf _ = True"

fun js_ge :: "jsnum \<Rightarrow> jsnum \<Rightarrow> bool" where
  "js_ge NaN _ = False"
| "js_ge _ NaN = False"
| "js_ge a b = (\<not> js_lt a b)"

text \<open>\<open>Math.min\<close> and \<open>Math.max\<close>: NaN if either argument is NaN.\<close>

fun js_min :: "jsnum \<Rightarrow> jsnum \<Rightarrow> jsnum" where
  "js_min NaN _ = NaN"
| "js_min _ NaN = NaN"
| "js_min a b = (if js_lt b a then b else a)"

fun js_max :: "jsnum \<Rightarrow> jsnum \<Rightarrow> jsnum" where
  "js_max NaN _ = NaN"
| "js_max _ NaN = NaN"
| "js_max a b = (if js_lt a b then b else a)"

section \<open>Data model\<close>

text \<open>
  Objects are held by reference. A reference is a natural number; the cameras live in
  the store \<open>cameras\<close> and the shots (class \<open>AnimatedCamera\<close>) in the store \<open>heap\<close>,
  so that the list \<open>shots\<close>, the list \<open>sequence\<close> and the target camera may alias.
\<close>

type_synonym ref = nat

type_synonym vec3 = "jsnum \<times> jsnum \<times> jsnum"
type_synonym quat = "jsnum \<times> jsnum \<times> jsnum \<times> jsnum"

record PerspectiveCamera =
  cam_name :: string
  position :: vec3
  quaternion :: quat
  fov :: jsnum

text \<open>
  An animation clip of the rendering library: its name, its duration, and the pose
  (position, orientation, field of view) its tracks give at a clip time.
\<close>

record AnimationClip =
  name :: string
  duration :: jsnum
  tracks :: "jsnum \<Rightarrow> vec3 \<times> quat \<times> jsnum"

text \<open>
  The library's action on a clip, as far as the sequencer drives it: the local time,
  the time scale, the paused flag, and whether the action is scheduled in its mixer.
  The action loops once and clamps when finished (set in the constructor of
  \<open>AnimatedCamera\<close>), so it is never disabled and the enabled flag is left out.
\<close>

record AnimationAction =
  time :: jsnum
  timeScale :: jsnum
  paused :: bool
  scheduled :: bool

text \<open>
  The only finish callback the sequencer ever installs on a shot is the closure
  \<open>() => this.onShotFinished()\<close>.
\<close>

datatype finish_handler = ShotAdvance

record AnimatedCamera =
  camera :: ref
  clip :: AnimationClip
  action :: AnimationAction
  onFinishCallback :: "finish_handler option"

text \<open>
  A callback of the embedding application is opaque: it is identified by a label and
  its invocation is recorded in the trace of the manager. Callbacks are taken not to
  call back into the sequencer.
\<close>

datatype VoidFunction = VoidFunction string

text \<open>
  An entry of \<open>frameScripts\<close>. The field \<open>time\<close> of the source is \<open>script_time\<close>
  here (the action has a field \<open>time\<close> too); an absent \<open>called\<close> is \<open>False\<close>.
\<close>

record frameScript =
  script_time :: jsnum
  callback :: VoidFunction
  called :: bool

datatype event =
    FrameScriptCalled nat VoidFunction  \<comment> \<open>the callback of the script at this index ran\<close>
  | ShotsCompletedCalled VoidFunction   \<comment> \<open>the completion callback ran\<close>

datatype log_entry =
    Warn_NoSequence                     \<comment> \<open>\<open>No sequence configured\<close>\<close>
  | Warn_ShotNotFound string            \<comment> \<open>\<open>Shot "..." not found\<close>\<close>
  | Log_TimeScale string jsnum jsnum jsnum
      \<comment> \<open>shot name, new time scale, original duration, new duration\<close>

datatype error = TypeError

record ShotsManager =
  shots :: "ref list"
  sequence :: "ref list option"
  currentShotIndex :: int
  isPlaying :: bool
  targetCamera :: "ref option"
  frameScripts :: "frameScript list"
  playheadTime :: jsnum
  onShotsCompleted :: "VoidFunction option"
  loop :: bool
  heap :: "ref \<Rightarrow> AnimatedCamera"
  cameras :: "ref \<Rightarrow> PerspectiveCamera"
  trace :: "event list"
  console :: "log_entry list"

section \<open>The animation library\<close>

text \<open>
  \<open>CameraShotsManager.ts\<close> drives one \<open>AnimationAction\<close> in one \<open>AnimationMixer\<close>
  per shot. Both classes belong to the package \<open>three\<close>, which the repository
  imports; this section models them as far as the sequencer uses them.

  \<open>AnimationAction.reset\<close>, \<open>play\<close> and \<open>stop\<close>: \<open>reset\<close> unpauses and rewinds,
  \<open>play\<close> schedules the action in its mixer, \<open>stop\<close> unschedules it and resets
  it. On \<open>stop\<close> the mixer also gives the camera back the pose it had when the
  action was scheduled; that bookkeeping is left out.
\<close>

definition action_reset :: "AnimationAction \<Rightarrow> AnimationAction" where
  "action_reset a = a\<lparr>paused := False, time := Fin 0\<rparr>"

definition action_play :: "AnimationAction \<Rightarrow> AnimationAction" where
  "action_play a = a\<lparr>scheduled := True\<rparr>"

definition action_stop :: "AnimationAction \<Rightarrow> AnimationAction" where
  "action_stop a = action_reset (a\<lparr>scheduled := False\<rparr>)"

text \<open>
  One mixer update of a scheduled action that loops once and clamps when finished.
  The step is scaled by the time scale (by zero when paused). A zero step leaves the
  action alone. Otherwise the local time advances; on reaching the duration, or on
  falling below zero, the action is clamped there and paused, and the mixer
  dispatches \<open>finished\<close>. The result is the action, the clip time at which the
  tracks are evaluated, and whether \<open>finished\<close> is dispatched.
\<close>

definition action_advance ::
  "jsnum \<Rightarrow> jsnum \<Rightarrow> AnimationAction \<Rightarrow> AnimationAction \<times> jsnum \<times> bool" where
  "action_advance dur delta a =
     (let deltaTime = js_mul delta (if paused a then Fin 0 else timeScale a);
          t = js_add (time a) deltaTime
      in if deltaTime = Fin 0 then (a, t, False)
         else if js_ge t dur then (a\<lparr>paused := True, time := dur\<rparr>, dur, True)
         else if js_lt t (Fin 0) then (a\<lparr>paused := True, time := Fin 0\<rparr>, Fin 0, True)
         else (a\<lparr>time := t\<rparr>, t, False))"

section \<open>AnimatedCamera\<close>

definition new_AnimatedCamera :: "ref \<Rightarrow> AnimationClip \<Rightarrow> AnimatedCamera" where
  "new_AnimatedCamera cam c =
     \<lparr>camera = cam, clip = c,
      action = \<lparr>time = Fin 0, timeScale = Fin 1, paused = False, scheduled = False\<rparr>,
      onFinishCallback = None\<rparr>"

definition getEffectiveDuration :: "AnimatedCamera \<Rightarrow> jsnum" where
  "getEffectiveDuration ac = js_div (duration (clip ac)) (timeScale (action ac))"

definition shot_play :: "finish_handler \<Rightarrow> AnimatedCamera \<Rightarrow> AnimatedCamera" where
  "shot_play onFinish ac =
     ac\<lparr>onFinishCallback := Some onFinish,
        action := action_play (action_reset (action ac))\<rparr>"

definition shot_stop :: "AnimatedCamera \<Rightarrow> AnimatedCamera" where
  "shot_stop ac = ac\<lparr>action := action_stop (action ac)\<rparr>"

text \<open>\<open>AnimatedCamera.setDuration\<close>, on the shot at a reference; it logs the new scale.\<close>

definition setDuration :: "ref \<Rightarrow> jsnum \<Rightarrow> ShotsManager \<Rightarrow> ShotsManager" where
  "setDuration r newDuration s =
     (let ac = heap s r;
          originalDuration = duration (clip ac);
          ts = js_div originalDuration newDuration
      in s\<lparr>heap := (heap s)(r := ac\<lparr>action := (action ac)\<lparr>timeScale := ts\<rparr>\<rparr>),
           console := console s @
             [Log_TimeScale (name (clip ac)) ts originalDuration newDuration]\<rparr>)"

section \<open>ShotsManager\<close>

text \<open>
  The constructor pairs every camera with the clip of its name and leaves
  \<open>sequence\<close> unset, \<open>currentShotIndex = -1\<close>, \<open>isPlaying = False\<close>,
  \<open>playheadTime = 0\<close>, \<open>loop = False\<close> and no frame scripts. The list \<open>shots\<close> is
  never changed afterwards.
\<close>

definition find_shot :: "ShotsManager \<Rightarrow> string \<Rightarrow> ref option" where
  "find_shot s n = find (\<lambda>r. name (clip (heap s r)) = n) (shots s)"

text \<open>The loop of \<open>config\<close>: the shots found for the names, in order; others are skipped.\<close>

fun config_loop :: "ShotsManager \<Rightarrow> string list \<Rightarrow> ref list" where
  "config_loop s [] = []"
| "config_loop s (n # ns) =
     (case find_shot s n of
        Some shot \<Rightarrow> shot # config_loop s ns
      | None \<Rightarrow> config_loop s ns)"

definition config :: "string list \<Rightarrow> ShotsManager \<Rightarrow> ShotsManager" where
  "config shotsNames s = s\<lparr>sequence := Some (config_loop s shotsNames)\<rparr>"

text \<open>\<open>addFrameScript\<close>; an omitted \<open>baseFPS\<close> (\<open>None\<close>) is 24.\<close>

definition addFrameScript ::
  "jsnum \<Rightarrow> VoidFunction \<Rightarrow> jsnum option \<Rightarrow> ShotsManager \<Rightarrow> ShotsManager" where
  "addFrameScript frame cb baseFPS s =
     s\<lparr>frameScripts := frameScripts s @
        [\<lparr>script_time = js_div frame (case baseFPS of None \<Rightarrow> Fin 24 | Some f \<Rightarrow> f),
          callback = cb, called = False\<rparr>]\<rparr>"

definition setShotDuration :: "string \<Rightarrow> jsnum \<Rightarrow> ShotsManager \<Rightarrow> bool \<times> ShotsManager" where
  "setShotDuration shotName newDuration s =
     (case find_shot s shotName of
        None \<Rightarrow> (False, s\<lparr>console := console s @ [Warn_ShotNotFound shotName]\<rparr>)
      | Some shot \<Rightarrow> (True, setDuration shot newDuration s))"

text \<open>
  \<open>playCurrentShot\<close>. Reading the sequence at a negative index gives \<open>undefined\<close>,
  and calling \<open>play\<close> on it throws.
\<close>

definition playCurrentShot :: "ShotsManager \<Rightarrow> error + ShotsManager" where
  "playCurrentShot s =
     (case sequence s of
        None \<Rightarrow> Inr s
      | Some sq \<Rightarrow>
          if currentShotIndex s \<ge> int (length sq) then Inr s
          else if currentShotIndex s < 0 then Inl TypeError
          else let currentShot = sq ! nat (currentShotIndex s)
               in Inr (s\<lparr>heap := (heap s)(currentShot :=
                            shot_play ShotAdvance (heap s currentShot))\<rparr>))"

definition onShotFinished :: "ShotsManager \<Rightarrow> error + ShotsManager" where
  "onShotFinished s =
     (let s1 = s\<lparr>currentShotIndex := currentShotIndex s + 1\<rparr>
      in case sequence s1 of
           None \<Rightarrow> Inl TypeError
         | Some sq \<Rightarrow>
             if currentShotIndex s1 \<ge> int (length sq) then
               (if loop s1 then playCurrentShot (s1\<lparr>currentShotIndex := 0\<rparr>)
                else let s2 = s1\<lparr>isPlaying := False\<rparr>
                     in Inr (case onShotsCompleted s2 of
                               None \<Rightarrow> s2
                             | Some cb \<Rightarrow> s2\<lparr>trace := trace s2 @ [ShotsCompletedCalled cb]\<rparr>))
             else playCurrentShot s1)"

definition play :: "VoidFunction option \<Rightarrow> ShotsManager \<Rightarrow> error + ShotsManager" where
  "play onCompleted s =
     (if sequence s = None \<or> sequence s = Some [] then
        Inr (s\<lparr>console := console s @ [Warn_NoSequence]\<rparr>)
      else playCurrentShot
             (s\<lparr>playheadTime := Fin 0,
                onShotsCompleted := onCompleted,
                frameScripts := map (\<lambda>script. script\<lparr>called := False\<rparr>) (frameScripts s),
                isPlaying := True,
                currentShotIndex := 0\<rparr>))"

text \<open>
  \<open>syncCamera\<close> copies position, orientation and field of view; the projection
  matrix it recomputes is derived from them and is not modelled.
\<close>

definition syncCamera :: "ref \<Rightarrow> ref \<Rightarrow> ShotsManager \<Rightarrow> ShotsManager" where
  "syncCamera cam target s =
     s\<lparr>cameras := (cameras s)(cam := (cameras s cam)
          \<lparr>position := position (cameras s target),
           quaternion := quaternion (cameras s target),
           fov := fov (cameras s target)\<rparr>)\<rparr>"

text \<open>
  The listener the constructor of \<open>AnimatedCamera\<close> registers for \<open>finished\<close>:
  it calls the finish callback of the shot, if there is one.
\<close>

definition dispatch_finished :: "ref \<Rightarrow> ShotsManager \<Rightarrow> error + ShotsManager" where
  "dispatch_finished r s =
     (case onFinishCallback (heap s r) of
        None \<Rightarrow> Inr s
      | Some ShotAdvance \<Rightarrow> onShotFinished s)"

text \<open>The mixer writes the pose of the clip at a clip time to the camera of the shot.\<close>

definition write_pose :: "ref \<Rightarrow> jsnum \<Rightarrow> ShotsManager \<Rightarrow> ShotsManager" where
  "write_pose r clipTime s =
     (let ac = heap s r; cam = camera ac
      in case tracks (clip ac) clipTime of
           (p, q, f) \<Rightarrow>
             s\<lparr>cameras := (cameras s)(cam := (cameras s cam)
                  \<lparr>position := p, quaternion := q, fov := f\<rparr>)\<rparr>)"

text \<open>
  \<open>mixer.update(delta)\<close> of the shot at a reference. A mixer whose action is not
  scheduled does nothing. Otherwise the action advances; the \<open>finished\<close> event is
  dispatched in the middle of the update, after the action was clamped and paused
  and before the pose is written.
\<close>

definition mixer_update :: "ref \<Rightarrow> jsnum \<Rightarrow> ShotsManager \<Rightarrow> error + ShotsManager" where
  "mixer_update r delta s =
     (let ac = heap s r
      in if \<not> scheduled (action ac) then Inr s
         else case action_advance (duration (clip ac)) delta (action ac) of
           (a, clipTime, finished) \<Rightarrow>
             (let s1 = s\<lparr>heap := (heap s)(r := ac\<lparr>action := a\<rparr>)\<rparr>
              in case (if finished then dispatch_finished r s1 else Inr s1) of
                   Inl e \<Rightarrow> Inl e
                 | Inr s2 \<Rightarrow> Inr (write_pose r clipTime s2)))"

text \<open>\<open>AnimatedCamera.update\<close>, \<open>stop\<close> and \<open>scrubTo\<close> on the shot at a reference.\<close>

definition shot_update :: "ref \<Rightarrow> jsnum \<Rightarrow> ShotsManager \<Rightarrow> error + ShotsManager" where
  "shot_update r delta s = mixer_update r delta s"

definition stop :: "ref \<Rightarrow> ShotsManager \<Rightarrow> ShotsManager" where
  "stop r s = s\<lparr>heap := (heap s)(r := shot_stop (heap s r))\<rparr>"

definition scrubTo :: "ref \<Rightarrow> jsnum \<Rightarrow> ShotsManager \<Rightarrow> error + ShotsManager" where
  "scrubTo r t s =
     (let ac = heap s r;
          a1 = (action_play (action_reset (action ac)))\<lparr>paused := True\<rparr>;
          actualAnimationTime = js_mul t (timeScale a1);
          a2 = a1\<lparr>time := js_max (Fin 0) (js_min actualAnimationTime (duration (clip ac)))\<rparr>
      in mixer_update r (Fin 0) (s\<lparr>heap := (heap s)(r := ac\<lparr>action := a2\<rparr>)\<rparr>))"

text \<open>The first loop of \<open>scrub\<close>: stop every shot of the sequence.\<close>

fun stop_all :: "ref list \<Rightarrow> ShotsManager \<Rightarrow> ShotsManager" where
  "stop_all [] s = s"
| "stop_all (r # rs) s = stop_all rs (stop r s)"

text \<open>
  The second loop of \<open>scrub\<close>, from the accumulated time on: the first shot whose
  interval holds the time, with the time local to the shot.
\<close>

fun scrub_loop :: "ShotsManager \<Rightarrow> jsnum \<Rightarrow> jsnum \<Rightarrow> ref list \<Rightarrow> (ref \<times> jsnum) option" where
  "scrub_loop s t accumulatedTime [] = None"
| "scrub_loop s t accumulatedTime (sq # rest) =
     (let clipDuration = getEffectiveDuration (heap s sq);
          shotStart = accumulatedTime;
          shotEnd = js_add accumulatedTime clipDuration
      in if js_ge t shotStart \<and> js_lt t shotEnd then Some (sq, js_sub t shotStart)
         else scrub_loop s t (js_add accumulatedTime clipDuration) rest)"

text \<open>The target shot and the scrub time of \<open>scrub\<close>, for a sequence that is not empty.\<close>

definition scrub_target :: "ShotsManager \<Rightarrow> jsnum \<Rightarrow> ref list \<Rightarrow> ref \<times> jsnum" where
  "scrub_target s t sq =
     (case scrub_loop s t (Fin 0) sq of
        Some found \<Rightarrow> found
      | None \<Rightarrow> (let lastShot = last sq in (lastShot, getEffectiveDuration (heap s lastShot))))"

definition scrub :: "jsnum \<Rightarrow> ref \<Rightarrow> ShotsManager \<Rightarrow> error + ShotsManager" where
  "scrub t cam s =
     (case sequence s of
        None \<Rightarrow> Inr s
      | Some sq \<Rightarrow>
          if sq = [] then Inr s
          else let s1 = stop_all sq (s\<lparr>isPlaying := False\<rparr>)
               in case scrub_target s1 t sq of
                    (targetShot, scrubTime) \<Rightarrow>
                      (case scrubTo targetShot scrubTime s1 of
                         Inl e \<Rightarrow> Inl e
                       | Inr s2 \<Rightarrow> Inr (syncCamera cam (camera (heap s2 targetShot)) s2)))"

text \<open>
  The last loop of \<open>update\<close>, from the script at index \<open>i\<close> on: a script whose time
  is below the playhead and that was not called is marked and then called.
\<close>

fun check_frameScripts ::
  "jsnum \<Rightarrow> nat \<Rightarrow> frameScript list \<Rightarrow> frameScript list \<times> event list" where
  "check_frameScripts ph i [] = ([], [])"
| "check_frameScripts ph i (script # rest) =
     (case check_frameScripts ph (Suc i) rest of
        (rest', evs) \<Rightarrow>
          if js_lt (script_time script) ph \<and> \<not> called script
          then (script\<lparr>called := True\<rparr> # rest', FrameScriptCalled i (callback script) # evs)
          else (script # rest', evs))"

definition run_frameScripts :: "ShotsManager \<Rightarrow> ShotsManager" where
  "run_frameScripts s =
     (case check_frameScripts (playheadTime s) 0 (frameScripts s) of
        (scripts, evs) \<Rightarrow> s\<lparr>frameScripts := scripts, trace := trace s @ evs\<rparr>)"

text \<open>
  \<open>update\<close>. With a target camera set and the index beyond the sequence, reading
  \<open>camera\<close> of \<open>undefined\<close> throws.
\<close>

definition update :: "jsnum \<Rightarrow> ShotsManager \<Rightarrow> error + ShotsManager" where
  "update delta s =
     (case sequence s of
        None \<Rightarrow> Inr s
      | Some sq \<Rightarrow>
          if \<not> isPlaying s \<or> currentShotIndex s < 0 then Inr s
          else let i = nat (currentShotIndex s)
               in case (case targetCamera s of
                          None \<Rightarrow> Inr s
                        | Some tc \<Rightarrow>
                            if i < length sq
                            then Inr (syncCamera tc (camera (heap s (sq ! i))) s)
                            else Inl TypeError) of
                    Inl e \<Rightarrow> Inl e
                  | Inr s1 \<Rightarrow>
                      (let s2 = s1\<lparr>playheadTime := js_add (playheadTime s1) delta\<rparr>
                       in case (if i < length sq then shot_update (sq ! i) delta s2
                                else Inr s2) of
                            Inl e \<Rightarrow> Inl e
                          | Inr s3 \<Rightarrow> Inr (run_frameScripts s3)))"

section \<open>Vocabulary of the properties\<close>

text \<open>
  No shot of the sequence has a negative effective duration. A negative effective
  duration comes from a negative target duration, which \<open>setDuration\<close> does not guard.
\<close>

definition no_negative_duration :: "ShotsManager \<Rightarrow> ref list \<Rightarrow> bool" where
  "no_negative_duration s sq =
     (\<forall>r \<in> set sq. \<not> js_lt (getEffectiveDuration (heap s r)) (Fin 0))"

text \<open>
  The start of the shot at index \<open>i\<close> on the timeline: the effective durations of the
  shots before it, accumulated from 0 as the loop of \<open>scrub\<close> does. At the length of
  the sequence this is the end of the last shot.
\<close>

definition shot_start :: "ShotsManager \<Rightarrow> ref list \<Rightarrow> nat \<Rightarrow> jsnum" where
  "shot_start s sq i =
     foldl js_add (Fin 0) (map (\<lambda>r. getEffectiveDuration (heap s r)) (take i sq))"

text \<open>
  The same from an accumulated time on, as the loop sees the rest of the sequence,
  and whether a time lies in the interval of the shot at index \<open>i\<close>: from its start
  up to, not including, its start plus its effective duration.
\<close>

definition start_from :: "ShotsManager \<Rightarrow> jsnum \<Rightarrow> ref list \<Rightarrow> nat \<Rightarrow> jsnum" where
  "start_from s acc sq i =
     foldl js_add acc (map (\<lambda>r. getEffectiveDuration (heap s r)) (take i sq))"

definition in_shot_from :: "ShotsManager \<Rightarrow> jsnum \<Rightarrow> ref list \<Rightarrow> jsnum \<Rightarrow> nat \<Rightarrow> bool" where
  "in_shot_from s acc sq t i =
     (js_ge t (start_from s acc sq i)
      \<and> js_lt t (js_add (start_from s acc sq i) (getEffectiveDuration (heap s (sq ! i)))))"

definition in_shot :: "ShotsManager \<Rightarrow> ref list \<Rightarrow> jsnum \<Rightarrow> nat \<Rightarrow> bool" where
  "in_shot s sq t i =
     (js_ge t (shot_start s sq i)
      \<and> js_lt t (js_add (shot_start s sq i) (getEffectiveDuration (heap s (sq ! i)))))"

text \<open>The clip time at which \<open>scrubTo\<close> puts the action, for a local effective time.\<close>

definition scrub_time :: "AnimatedCamera \<Rightarrow> jsnum \<Rightarrow> jsnum" where
  "scrub_time ac localTime =
     js_max (Fin 0) (js_min (js_mul localTime (timeScale (action ac))) (duration (clip ac)))"

text \<open>
  In \<open>s'\<close> the shot \<open>r\<close> of \<open>s\<close> sits paused and scheduled at the clip time of the local
  time, and the camera \<open>cam\<close> shows the pose of its clip there.
\<close>

definition scrubbed :: "ShotsManager \<Rightarrow> ref \<Rightarrow> jsnum \<Rightarrow> ref \<Rightarrow> ShotsManager \<Rightarrow> bool" where
  "scrubbed s r localTime cam s' =
     (action (heap s' r) =
        \<lparr>time = scrub_time (heap s r) localTime, timeScale = timeScale (action (heap s r)),
         paused = True, scheduled = True\<rparr>
      \<and> (position (cameras s' cam), quaternion (cameras s' cam), fov (cameras s' cam))
          = tracks (clip (heap s r)) (scrub_time (heap s r) localTime))"

text \<open>
  \<open>scrub\<close> selects the shot \<open>r\<close> at a local time: its loops leave \<open>r\<close> as target shot
  and the local time as scrub time, and \<open>scrub\<close> returns with \<open>r\<close> scrubbed there.
\<close>

definition scrub_selects ::
  "jsnum \<Rightarrow> ref \<Rightarrow> ShotsManager \<Rightarrow> ref list \<Rightarrow> ref \<Rightarrow> jsnum \<Rightarrow> bool" where
  "scrub_selects t cam s sq r localTime =
     (scrub_target s t sq = (r, localTime)
      \<and> (case scrub t cam s of
            Inl _ \<Rightarrow> False
          | Inr s' \<Rightarrow> scrubbed s r localTime cam s'))"

text \<open>
  The state \<open>scrub\<close> leaves when its loops select the shot \<open>r\<close> at the local time
  \<open>lt\<close>: the shots of the sequence stopped, \<open>r\<close> put at its clip time and paused, its
  pose written to its camera and copied to \<open>cam\<close>.
\<close>

definition scrub_result :: "ShotsManager \<Rightarrow> ref list \<Rightarrow> ref \<Rightarrow> jsnum \<Rightarrow> ref \<Rightarrow> ShotsManager" where
  "scrub_result s sq r lt cam =
     syncCamera cam (camera (heap s r))
       (write_pose r (scrub_time (heap s r) lt)
          (s\<lparr>isPlaying := False,
             heap := (\<lambda>x. if x \<in> set sq then shot_stop (heap s x) else heap s x)
                (r := (heap s r)\<lparr>action :=
                   \<lparr>time = scrub_time (heap s r) lt,
                    timeScale = timeScale (action (heap s r)),
                    paused = True, scheduled = True\<rparr>\<rparr>)\<rparr>))"

text \<open>
  A frame script is due at a playhead time when its time is below the playhead and it
  was not called. \<open>fired_events\<close> are the invocations of the due scripts, in
  registration order; \<open>mark_due\<close> sets the flag of the due scripts.
\<close>

definition due :: "jsnum \<Rightarrow> frameScript \<Rightarrow> bool" where
  "due ph script = (js_lt (script_time script) ph \<and> \<not> called script)"

definition fired_events :: "jsnum \<Rightarrow> frameScript list \<Rightarrow> event list" where
  "fired_events ph scripts =
     map (\<lambda>i. FrameScriptCalled i (callback (scripts ! i)))
       (filter (\<lambda>i. due ph (scripts ! i)) [0..<length scripts])"

definition mark_due :: "jsnum \<Rightarrow> frameScript list \<Rightarrow> frameScript list" where
  "mark_due ph scripts = map (\<lambda>sc. if due ph sc then sc\<lparr>called := True\<rparr> else sc) scripts"

text \<open>The state after the target camera, if one is set, took the pose of the camera of \<open>r\<close>.\<close>

definition mirrored :: "ShotsManager \<Rightarrow> ref \<Rightarrow> ShotsManager" where
  "mirrored s r =
     (case targetCamera s of
        None \<Rightarrow> s
      | Some tc \<Rightarrow> syncCamera tc (camera (heap s r)) s)"

text \<open>At most one event, the invocation of the completion callback.\<close>

fun completion_only :: "event list \<Rightarrow> bool" where
  "completion_only [] = True"
| "completion_only [ShotsCompletedCalled cb] = True"
| "completion_only _ = False"

text \<open>
  The calls of the public interface, one call and a list of calls run in order. A
  call that throws ends the run.
\<close>

datatype call =
    Config "string list"
  | AddFrameScript jsnum VoidFunction "jsnum option"
  | SetShotDuration string jsnum
  | Play "VoidFunction option"
  | Scrub jsnum ref
  | Update jsnum
  | SetLoop bool
  | SetTargetCamera "ref option"

fun perform :: "call \<Rightarrow> ShotsManager \<Rightarrow> error + ShotsManager" where
  "perform (Config shotsNames) s = Inr (config shotsNames s)"
| "perform (AddFrameScript frame cb baseFPS) s = Inr (addFrameScript frame cb baseFPS s)"
| "perform (SetShotDuration shotName newDuration) s =
     Inr (snd (setShotDuration shotName newDuration s))"
| "perform (Play onCompleted) s = play onCompleted s"
| "perform (Scrub t cam) s = scrub t cam s"
| "perform (Update delta) s = update delta s"
| "perform (SetLoop b) s = Inr (s\<lparr>loop := b\<rparr>)"
| "perform (SetTargetCamera tc) s = Inr (s\<lparr>targetCamera := tc\<rparr>)"

fun run :: "call list \<Rightarrow> ShotsManager \<Rightarrow> error + ShotsManager" where
  "run [] s = Inr s"
| "run (c # cs) s = (case perform c s of Inl e \<Rightarrow> Inl e | Inr s' \<Rightarrow> run cs s')"

fun is_play :: "call \<Rightarrow> bool" where
  "is_play (Play _) = True"
| "is_play _ = False"

text \<open>How often the callback of the script at index \<open>i\<close> was invoked in a trace.\<close>

fun fired :: "nat \<Rightarrow> event list \<Rightarrow> nat" where
  "fired i [] = 0"
| "fired i (FrameScriptCalled j cb # evs) = (if i = j then 1 else 0) + fired i evs"
| "fired i (ShotsCompletedCalled cb # evs) = fired i evs"

text \<open>The script at index \<open>i\<close> exists and its flag is set.\<close>

definition was_called :: "ShotsManager \<Rightarrow> nat \<Rightarrow> bool" where
  "was_called s i = (i < length (frameScripts s) \<and> called (frameScripts s ! i))"

text \<open>
  Between \<open>s\<close> and \<open>s'\<close> the events \<open>evs\<close> were appended to the trace, no flag was
  cleared, no script was invoked twice, and a script was invoked only if its flag was
  unset before and is set after.
\<close>

definition session :: "ShotsManager \<Rightarrow> event list \<Rightarrow> ShotsManager \<Rightarrow> bool" where
  "session s evs s' =
     (trace s' = trace s @ evs
      \<and> (\<forall>i. was_called s i \<longrightarrow> was_called s' i)
      \<and> (\<forall>i. fired i evs \<le> 1)
      \<and> (\<forall>i. 0 < fired i evs \<longrightarrow> \<not> was_called s i \<and> was_called s' i))"

section \<open>A small scene\<close>

text \<open>
  Three shots: \<open>a\<close> of two seconds, \<open>b\<close> of three seconds and \<open>still\<close> of zero
  seconds, on the cameras 0, 1 and 2; every other reference is an output camera.
  \<open>demo\<close> is the manager as constructed, \<open>demo_ab\<close> has the sequence \<open>a, b\<close>
  configured, \<open>demo_playing\<close> is playing it with camera 9 as target camera.
\<close>

definition clipA :: AnimationClip where
  "clipA = \<lparr>name = ''a'', duration = Fin 2,
     tracks = (\<lambda>t. ((t, Fin 0, Fin 0), (Fin 0, Fin 0, Fin 0, Fin 1), Fin 50))\<rparr>"

definition clipB :: AnimationClip where
  "clipB = \<lparr>name = ''b'', duration = Fin 3,
     tracks = (\<lambda>t. ((Fin 0, t, Fin 0), (Fin 0, Fin 0, Fin 0, Fin 1), Fin 35))\<rparr>"

definition clipStill :: AnimationClip where
  "clipStill = \<lparr>name = ''still'', duration = Fin 0,
     tracks = (\<lambda>t. ((Fin 1, Fin 1, Fin 1), (Fin 0, Fin 0, Fin 0, Fin 1), Fin 20))\<rparr>"

definition demo_camera :: "string \<Rightarrow> real \<Rightarrow> PerspectiveCamera" where
  "demo_camera n x = \<lparr>cam_name = n, position = (Fin x, Fin 0, Fin 0),
     quaternion = (Fin 0, Fin 0, Fin 0, Fin 1), fov = Fin 50\<rparr>"

definition demo :: ShotsManager where
  "demo = \<lparr>shots = [0, 1, 2], sequence = None, currentShotIndex = - 1,
     isPlaying = False, targetCamera = None, frameScripts = [],
     playheadTime = Fin 0, onShotsCompleted = None, loop = False,
     heap = (\<lambda>_. new_AnimatedCamera 2 clipStill)
              (0 := new_AnimatedCamera 0 clipA, 1 := new_AnimatedCamera 1 clipB),
     cameras = (\<lambda>_. demo_camera ''out'' 0)
              (0 := demo_camera ''a'' 7, 1 := demo_camera ''b'' 8,
               2 := demo_camera ''still'' 9),
     trace = [], console = []\<rparr>"

definition demo_ab :: ShotsManager where
  "demo_ab = config [''a'', ''b''] demo"

definition demo_playing :: ShotsManager where
  "demo_playing =
     (case play (Some (VoidFunction ''done'')) (demo_ab\<lparr>targetCamera := Some 9\<rparr>) of
        Inr s \<Rightarrow> s
      | Inl _ \<Rightarrow> demo)"

text \<open>\<open>demo_last\<close>: two seconds later, the first shot has finished and \<open>b\<close> is playing.\<close>

definition demo_last :: ShotsManager where
  "demo_last = (case update (Fin 2) demo_playing of Inr s \<Rightarrow> s | Inl _ \<Rightarrow> demo)"

text \<open>
  \<open>demo_scripted\<close>: a frame script at frame 48 of 24 per second, then \<open>play\<close>;
  \<open>demo_looping\<close>: the same with the loop flag set.
\<close>

definition demo_scripted :: ShotsManager where
  "demo_scripted =
     (case play None (addFrameScript (Fin 48) (VoidFunction ''cue'') (Some (Fin 24))
                        (demo_ab\<lparr>targetCamera := Some 9\<rparr>)) of
        Inr s \<Rightarrow> s
      | Inl _ \<Rightarrow> demo)"

definition demo_looping :: ShotsManager where
  "demo_looping = demo_scripted\<lparr>loop := True\<rparr>"

text \<open>
  \<open>demo_reversed\<close>: \<open>a, b\<close> with \<open>b\<close> given the target duration -1;
  \<open>demo_reversed_first\<close>: \<open>a, b, still\<close> with \<open>a\<close> given the target duration -2.
\<close>

definition demo_reversed :: ShotsManager where
  "demo_reversed = snd (setShotDuration ''b'' (Fin (- 1)) demo_ab)"

definition demo_reversed_first :: ShotsManager where
  "demo_reversed_first =
     snd (setShotDuration ''a'' (Fin (- 2)) (config [''a'', ''b'', ''still''] demo))"

section \<open>Properties\<close>

lemmas demo_defs = demo_def demo_ab_def clipA_def clipB_def clipStill_def demo_camera_def
  new_AnimatedCamera_def find_shot_def config_def

lemma sequence_demo_ab: "sequence demo_ab = Some [0, 1]"
  by (simp add: demo_defs)

lemma js_add_zero_right: "js_add x (Fin 0) = x"
  by (cases x) simp_all

lemma write_pose_eq:
  "write_pose r ct s =
     s\<lparr>cameras := (cameras s)(camera (heap s r) := (cameras s (camera (heap s r)))
          \<lparr>position := fst (tracks (clip (heap s r)) ct),
           quaternion := fst (snd (tracks (clip (heap s r)) ct)),
           fov := snd (snd (tracks (clip (heap s r)) ct))\<rparr>)\<rparr>"
  by (simp add: write_pose_def Let_def split: prod.splits)

lemmas step_defs = playCurrentShot_def shot_play_def action_play_def
  action_reset_def dispatch_finished_def onShotFinished_def update_def shot_update_def
  mixer_update_def action_advance_def write_pose_eq syncCamera_def run_frameScripts_def
  Let_def

lemma demo_playing_eq:
  "demo_playing = demo\<lparr>sequence := Some [0, 1], currentShotIndex := 0, isPlaying := True,
     targetCamera := Some 9, onShotsCompleted := Some (VoidFunction ''done''),
     heap := (heap demo)(0 := (heap demo 0)\<lparr>
        action := \<lparr>time = Fin 0, timeScale = Fin 1, paused = False, scheduled = True\<rparr>,
        onFinishCallback := Some ShotAdvance\<rparr>)\<rparr>"
  by (simp add: demo_playing_def demo_defs play_def playCurrentShot_def shot_play_def
        action_play_def action_reset_def)

lemma demo_last_facts:
  "sequence demo_last = Some [0, 1]"
  "currentShotIndex demo_last = 1"
  "onFinishCallback (heap demo_last (Suc 0)) = Some ShotAdvance"
  "loop demo_last = False" "isPlaying demo_last = True"
  "onShotsCompleted demo_last = Some (VoidFunction ''done'')"
  "trace demo_last = []"
  "timeScale (action (heap demo_last 0)) = Fin 1"
  by (simp_all add: demo_last_def demo_playing_eq demo_defs step_defs)

subsection \<open>Nothing configured\<close>

text \<open>
  C9. With no sequence configured, or an empty one, \<open>play\<close> only logs its warning
  and \<open>scrub\<close> does nothing: playhead, index, playing flag, fired flags, completion
  callback, shots and cameras are those of the state before, and neither call fails.
  The state after still has no sequence, so this holds for every repetition.
\<close>

theorem C9_unconfigured_is_noop:
  assumes "sequence s = None \<or> sequence s = Some []"
  shows "play onCompleted s = Inr (s\<lparr>console := console s @ [Warn_NoSequence]\<rparr>)
       \<and> scrub t cam s = Inr s"
  using assms by (auto simp: play_def scrub_def)

theorem C9_unconfigured_is_noop_witness:
  "(sequence demo = None \<or> sequence demo = Some [])
   \<and> play (Some (VoidFunction ''done'')) demo
       = Inr (demo\<lparr>console := console demo @ [Warn_NoSequence]\<rparr>)
   \<and> scrub (Fin 1) 9 demo = Inr demo"
proof -
  have h: "sequence demo = None \<or> sequence demo = Some []"
    by (simp add: demo_def)
  from C9_unconfigured_is_noop [OF h] h show ?thesis
    by simp
qed

subsection \<open>Starting playback\<close>

text \<open>
  C4. With a sequence that is not empty, \<open>play\<close> sets the playhead to 0, clears the
  fired flag of every frame script (keeping their times and callbacks), sets the
  playing flag, sets the index to 0, stores the completion callback, and starts the
  first shot of the sequence: its action is rewound, unpaused and scheduled, and its
  finish callback is the shot-advance handler, so that the \<open>finished\<close> event of
  that shot runs \<open>onShotFinished\<close>. No other shot is touched.
\<close>

theorem C4_play_starts_first_shot:
  assumes "sequence s = Some sq" and "sq \<noteq> []"
  shows "\<exists>s'. play onCompleted s = Inr s'
     \<and> playheadTime s' = Fin 0
     \<and> length (frameScripts s') = length (frameScripts s)
     \<and> (\<forall>i < length (frameScripts s).
          \<not> called (frameScripts s' ! i)
          \<and> script_time (frameScripts s' ! i) = script_time (frameScripts s ! i)
          \<and> callback (frameScripts s' ! i) = callback (frameScripts s ! i))
     \<and> isPlaying s'
     \<and> currentShotIndex s' = 0
     \<and> onShotsCompleted s' = onCompleted
     \<and> sequence s' = Some sq
     \<and> action (heap s' (hd sq)) =
          \<lparr>time = Fin 0, timeScale = timeScale (action (heap s (hd sq))),
           paused = False, scheduled = True\<rparr>
     \<and> onFinishCallback (heap s' (hd sq)) = Some ShotAdvance
     \<and> dispatch_finished (hd sq) s' = onShotFinished s'
     \<and> (\<forall>r. r \<noteq> hd sq \<longrightarrow> heap s' r = heap s r)"
  using assms
  by (cases sq)
     (auto simp: play_def playCurrentShot_def shot_play_def action_play_def
        action_reset_def dispatch_finished_def)

theorem C4_play_starts_first_shot_witness:
  "sequence demo_ab = Some [0, 1] \<and> [0, 1] \<noteq> ([] :: ref list)
   \<and> (\<exists>s'. play None demo_ab = Inr s'
        \<and> playheadTime s' = Fin 0 \<and> isPlaying s' \<and> currentShotIndex s' = 0
        \<and> action (heap s' 0) =
             \<lparr>time = Fin 0, timeScale = Fin 1, paused = False, scheduled = True\<rparr>
        \<and> onFinishCallback (heap s' 0) = Some ShotAdvance)"
proof -
  have ts: "timeScale (action (heap demo_ab 0)) = Fin 1"
    by (simp add: demo_defs)
  from C4_play_starts_first_shot [OF sequence_demo_ab, of None] ts sequence_demo_ab
  show ?thesis
    by auto
qed

subsection \<open>The end of the sequence\<close>

text \<open>
  C3. Let the current index be the last index of the sequence and let the finish
  callback of the shot there fire. Without the loop flag, the playing flag is
  cleared, the completion callback, if one is stored, is invoked once, and no shot
  is started (no shot changes at all). With the loop flag, the index goes back to 0
  and the first shot is started again, rewound to local time 0, unpaused and
  scheduled, and no callback is invoked.
\<close>

theorem C3_last_shot_finished:
  assumes "sequence s = Some sq" and "sq \<noteq> []"
    and "currentShotIndex s = int (length sq) - 1"
    and "onFinishCallback (heap s (last sq)) = Some ShotAdvance"
  shows "\<exists>s'. dispatch_finished (last sq) s = Inr s'
     \<and> (if loop s
         then currentShotIndex s' = 0
            \<and> isPlaying s' = isPlaying s
            \<and> trace s' = trace s
            \<and> action (heap s' (hd sq)) =
                 \<lparr>time = Fin 0, timeScale = timeScale (action (heap s (hd sq))),
                  paused = False, scheduled = True\<rparr>
            \<and> onFinishCallback (heap s' (hd sq)) = Some ShotAdvance
         else \<not> isPlaying s'
            \<and> trace s' = trace s @
                 (case onShotsCompleted s of
                    None \<Rightarrow> []
                  | Some cb \<Rightarrow> [ShotsCompletedCalled cb])
            \<and> heap s' = heap s)"
  using assms
  by (cases sq)
     (auto simp: dispatch_finished_def onShotFinished_def playCurrentShot_def
        shot_play_def action_play_def action_reset_def Let_def split: option.splits)

theorem C3_last_shot_finished_witness:
  "sequence demo_last = Some [0, 1]
   \<and> currentShotIndex demo_last = int (length [0 :: ref, 1]) - 1
   \<and> onFinishCallback (heap demo_last (last [0, 1])) = Some ShotAdvance
   \<and> (\<exists>s'. dispatch_finished 1 demo_last = Inr s' \<and> \<not> isPlaying s'
          \<and> trace s' = [ShotsCompletedCalled (VoidFunction ''done'')]
          \<and> heap s' = heap demo_last)
   \<and> (\<exists>s'. dispatch_finished 1 (demo_last\<lparr>loop := True\<rparr>) = Inr s'
          \<and> currentShotIndex s' = 0 \<and> isPlaying s' \<and> trace s' = []
          \<and> action (heap s' 0) =
               \<lparr>time = Fin 0, timeScale = Fin 1, paused = False, scheduled = True\<rparr>)"
proof -
  have ne: "[0, 1] \<noteq> ([] :: ref list)" by simp
  have i: "currentShotIndex demo_last = int (length [0 :: ref, 1]) - 1"
    by (simp add: demo_last_facts)
  have f: "onFinishCallback (heap demo_last (last [0, 1])) = Some ShotAdvance"
    by (simp add: demo_last_facts)
  from C3_last_shot_finished [OF demo_last_facts(1) ne i f]
  have a: "\<exists>s'. dispatch_finished 1 demo_last = Inr s' \<and> \<not> isPlaying s'
          \<and> trace s' = [ShotsCompletedCalled (VoidFunction ''done'')]
          \<and> heap s' = heap demo_last"
    by (simp add: demo_last_facts)
  from C3_last_shot_finished [of "demo_last\<lparr>loop := True\<rparr>" "[0, 1]"] i f
  have b: "\<exists>s'. dispatch_finished 1 (demo_last\<lparr>loop := True\<rparr>) = Inr s'
          \<and> currentShotIndex s' = 0 \<and> isPlaying s' \<and> trace s' = []
          \<and> action (heap s' 0) =
               \<lparr>time = Fin 0, timeScale = Fin 1, paused = False, scheduled = True\<rparr>"
    by (auto simp: demo_last_facts)
  from demo_last_facts(1) i f a b show ?thesis
    by blast
qed

subsection \<open>Stretching a shot\<close>




subsection \<open>Scrubbing\<close>

lemma js_ge_add_nonneg: "js_ge t (js_add acc e) \<Longrightarrow> \<not> js_lt e (Fin 0) \<Longrightarrow> js_ge t acc"
  by (cases t; cases acc; cases e) auto

lemma js_ge_not_lt: "js_ge t b \<Longrightarrow> \<not> js_lt t b"
  by (cases t; cases b) auto

lemma js_ge_foldl_nonneg:
  assumes "js_ge t (foldl js_add acc (map f rs))"
    and "\<forall>r \<in> set rs. \<not> js_lt (f r) (Fin 0)"
  shows "js_ge t acc"
  using assms
proof (induction rs arbitrary: acc)
  case Nil
  then show ?case by simp
next
  case (Cons r rs)
  then have "js_ge t (js_add acc (f r))" by simp
  with Cons.prems(2) show ?case
    by (auto intro: js_ge_add_nonneg)
qed

lemma start_from_simps:
  "start_from s acc sq 0 = acc"
  "start_from s acc (r # rs) (Suc i) =
     start_from s (js_add acc (getEffectiveDuration (heap s r))) rs i"
  by (simp_all add: start_from_def)

lemma in_shot_from_simps:
  "in_shot_from s acc (r # rs) t 0 =
     (js_ge t acc \<and> js_lt t (js_add acc (getEffectiveDuration (heap s r))))"
  "in_shot_from s acc (r # rs) t (Suc i) =
     in_shot_from s (js_add acc (getEffectiveDuration (heap s r))) rs t i"
  by (simp_all add: in_shot_from_def start_from_simps)

lemma shot_start_from: "shot_start s sq i = start_from s (Fin 0) sq i"
  by (simp add: shot_start_def start_from_def)

lemma in_shot_eq_from: "in_shot s sq t i = in_shot_from s (Fin 0) sq t i"
  by (simp add: in_shot_def in_shot_from_def shot_start_from)

lemma scrub_loop_first:
  assumes "i < length sq" and "in_shot_from s acc sq t i" and "\<forall>j < i. \<not> in_shot_from s acc sq t j"
  shows "scrub_loop s t acc sq = Some (sq ! i, js_sub t (start_from s acc sq i))"
  using assms
proof (induction sq arbitrary: acc i)
  case Nil
  then show ?case by simp
next
  case (Cons r rs)
  let ?e = "getEffectiveDuration (heap s r)"
  show ?case
  proof (cases i)
    case 0
    with Cons.prems(2) show ?thesis
      by (simp add: Let_def in_shot_from_simps start_from_simps)
  next
    case (Suc k)
    have skip: "\<not> in_shot_from s acc (r # rs) t 0"
      using Cons.prems(3) Suc by blast
    have rest: "\<forall>j < k. \<not> in_shot_from s (js_add acc ?e) rs t j"
    proof (intro allI impI)
      fix j assume "j < k"
      then have "\<not> in_shot_from s acc (r # rs) t (Suc j)"
        using Cons.prems(3) Suc by simp
      then show "\<not> in_shot_from s (js_add acc ?e) rs t j"
        by (simp add: in_shot_from_simps)
    qed
    have k: "k < length rs" "in_shot_from s (js_add acc ?e) rs t k"
      using Cons.prems(1,2) Suc by (simp_all add: in_shot_from_simps)
    from Cons.IH [OF k rest] skip Suc show ?thesis
      by (auto simp: Let_def in_shot_from_simps start_from_simps)
  qed
qed

lemma scrub_loop_none:
  assumes "\<forall>j < length sq. \<not> in_shot_from s acc sq t j"
  shows "scrub_loop s t acc sq = None"
  using assms
proof (induction sq arbitrary: acc)
  case Nil
  then show ?case by simp
next
  case (Cons r rs)
  let ?e = "getEffectiveDuration (heap s r)"
  have skip: "\<not> in_shot_from s acc (r # rs) t 0"
    using Cons.prems by simp
  have rest: "\<forall>j < length rs. \<not> in_shot_from s (js_add acc ?e) rs t j"
  proof (intro allI impI)
    fix j assume "j < length rs"
    then have "\<not> in_shot_from s acc (r # rs) t (Suc j)"
      using Cons.prems by simp
    then show "\<not> in_shot_from s (js_add acc ?e) rs t j"
      by (simp add: in_shot_from_simps)
  qed
  from Cons.IH [OF rest] skip show ?case
    by (auto simp: Let_def in_shot_from_simps)
qed

lemma js_ge_start_from:
  assumes "no_negative_duration s sq" and "js_ge t (start_from s acc sq n)"
  shows "js_ge t acc"
proof -
  have "\<forall>r \<in> set (take n sq). \<not> js_lt (getEffectiveDuration (heap s r)) (Fin 0)"
    using assms(1) by (auto simp: no_negative_duration_def dest: in_set_takeD)
  with assms(2) show ?thesis
    unfolding start_from_def by (rule js_ge_foldl_nonneg)
qed

lemma not_in_shot_from_before:
  assumes "no_negative_duration s sq" and "js_ge t (start_from s acc sq n)"
    and "j < n" and "n \<le> length sq"
  shows "\<not> in_shot_from s acc sq t j"
  using assms
proof (induction sq arbitrary: acc n j)
  case Nil
  then show ?case by simp
next
  case (Cons r rs)
  let ?e = "getEffectiveDuration (heap s r)"
  obtain m where n: "n = Suc m"
    using Cons.prems(3) by (cases n) auto
  have nn: "no_negative_duration s rs"
    using Cons.prems(1) by (simp add: no_negative_duration_def)
  have ge: "js_ge t (start_from s (js_add acc ?e) rs m)"
    using Cons.prems(2) n by (simp add: start_from_simps)
  show ?case
  proof (cases j)
    case 0
    from js_ge_start_from [OF nn ge] have "\<not> js_lt t (js_add acc ?e)"
      by (rule js_ge_not_lt)
    with 0 show ?thesis by (simp add: in_shot_from_simps)
  next
    case (Suc k)
    with Cons.IH [OF nn ge, of k] Cons.prems(3,4) n show ?thesis
      by (simp add: in_shot_from_simps)
  qed
qed

lemma not_in_shot_before:
  assumes "no_negative_duration s sq" and "js_ge t (shot_start s sq n)"
    and "j < n" and "n \<le> length sq"
  shows "\<not> in_shot s sq t j"
  using not_in_shot_from_before [OF assms(1) _ assms(3,4), of t "Fin 0"] assms(2)
  by (simp add: in_shot_eq_from shot_start_from)

lemma not_in_shot_negative:
  assumes "no_negative_duration s sq" and "js_lt t (Fin 0)"
  shows "\<not> in_shot s sq t j"
proof
  assume "in_shot s sq t j"
  then have "js_ge t (start_from s (Fin 0) sq j)"
    by (simp add: in_shot_def shot_start_from)
  from js_ge_start_from [OF assms(1) this] assms(2) show False
    by (cases t) auto
qed


lemma shot_stop_idem: "shot_stop (shot_stop x) = shot_stop x"
  by (simp add: shot_stop_def action_stop_def action_reset_def)

lemma shot_stop_fields:
  "camera (shot_stop x) = camera x"
  "clip (shot_stop x) = clip x"
  "onFinishCallback (shot_stop x) = onFinishCallback x"
  "timeScale (action (shot_stop x)) = timeScale (action x)"
  "(shot_stop x)\<lparr>action := a\<rparr> = x\<lparr>action := a\<rparr>"
  by (simp_all add: shot_stop_def action_stop_def action_reset_def)

lemma stop_all_eq:
  "stop_all sq s = s\<lparr>heap := (\<lambda>r. if r \<in> set sq then shot_stop (heap s r) else heap s r)\<rparr>"
proof (induction sq arbitrary: s)
  case Nil
  show ?case by simp
next
  case (Cons x xs)
  have "(\<lambda>r. if r \<in> set xs then shot_stop (heap (stop x s) r) else heap (stop x s) r)
      = (\<lambda>r. if r \<in> set (x # xs) then shot_stop (heap s r) else heap s r)"
    by (rule ext) (simp add: stop_def shot_stop_idem)
  with Cons.IH [of "stop x s"] show ?case
    by (simp add: stop_def)
qed

lemma eff_shot_stop: "getEffectiveDuration (shot_stop x) = getEffectiveDuration x"
  by (simp add: getEffectiveDuration_def shot_stop_def action_stop_def action_reset_def)

lemma scrub_loop_cong:
  assumes "\<forall>r \<in> set sq. getEffectiveDuration (heap s' r) = getEffectiveDuration (heap s r)"
  shows "scrub_loop s' t acc sq = scrub_loop s t acc sq"
  using assms by (induction sq arbitrary: acc) (simp_all add: Let_def)

lemma scrub_target_cong:
  assumes "\<forall>r \<in> set sq. getEffectiveDuration (heap s' r) = getEffectiveDuration (heap s r)"
    and "sq \<noteq> []"
  shows "scrub_target s' t sq = scrub_target s t sq"
proof -
  have "getEffectiveDuration (heap s' (last sq)) = getEffectiveDuration (heap s (last sq))"
    using assms by simp
  then show ?thesis
    using scrub_loop_cong [OF assms(1)]
    by (simp add: scrub_target_def Let_def split: option.splits)
qed

lemma scrub_loop_in_set: "scrub_loop s t acc sq = Some (r, lt) \<Longrightarrow> r \<in> set sq"
  by (induction sq arbitrary: acc) (auto simp: Let_def split: if_splits)

lemma scrub_target_in_set: "sq \<noteq> [] \<Longrightarrow> scrub_target s t sq = (r, lt) \<Longrightarrow> r \<in> set sq"
  by (auto simp: scrub_target_def Let_def split: option.splits dest: scrub_loop_in_set)

lemma action_record_eq:
  "a\<lparr>scheduled := sc, paused := p, time := x\<rparr>
     = \<lparr>time = x, timeScale = timeScale a, paused = p, scheduled = sc\<rparr>"
  by (cases a) simp

lemma scrubTo_eq:
  "scrubTo r lt s =
     Inr (write_pose r (scrub_time (heap s r) lt)
            (s\<lparr>heap := (heap s)(r := (heap s r)\<lparr>action :=
                 \<lparr>time = scrub_time (heap s r) lt, timeScale = timeScale (action (heap s r)),
                  paused = True, scheduled = True\<rparr>\<rparr>)\<rparr>))"
  by (simp add: scrubTo_def mixer_update_def action_advance_def action_play_def
        action_reset_def scrub_time_def Let_def js_add_zero_right action_record_eq)

lemma scrub_eq:
  assumes "sequence s = Some sq" and "sq \<noteq> []" and "scrub_target s t sq = (r, lt)"
  shows "scrub t cam s = Inr (scrub_result s sq r lt cam)"
proof -
  let ?s1 = "stop_all sq (s\<lparr>isPlaying := False\<rparr>)"
  have r: "r \<in> set sq"
    using scrub_target_in_set [OF assms(2,3)] .
  have "scrub_target ?s1 t sq = scrub_target s t sq"
    by (rule scrub_target_cong) (simp_all add: stop_all_eq eff_shot_stop assms(2))
  with assms(3) have tgt: "scrub_target ?s1 t sq = (r, lt)"
    by simp
  have st: "scrub_time (shot_stop (heap s r)) lt = scrub_time (heap s r) lt"
    by (simp add: scrub_time_def shot_stop_fields)
  show ?thesis
    using assms(1,2) tgt r
    by (simp add: scrub_def scrubTo_eq st stop_all_eq write_pose_eq Let_def
          shot_stop_fields scrub_result_def cong: if_cong)
qed


lemma scrub_result_fields:
  "isPlaying (scrub_result s sq r lt cam) = False"
  "playheadTime (scrub_result s sq r lt cam) = playheadTime s"
  "trace (scrub_result s sq r lt cam) = trace s"
  "currentShotIndex (scrub_result s sq r lt cam) = currentShotIndex s"
  "frameScripts (scrub_result s sq r lt cam) = frameScripts s"
  "sequence (scrub_result s sq r lt cam) = sequence s"
  "onShotsCompleted (scrub_result s sq r lt cam) = onShotsCompleted s"
  "heap (scrub_result s sq r lt cam) =
     (\<lambda>x. if x \<in> set sq then shot_stop (heap s x) else heap s x)
       (r := (heap s r)\<lparr>action :=
          \<lparr>time = scrub_time (heap s r) lt, timeScale = timeScale (action (heap s r)),
           paused = True, scheduled = True\<rparr>\<rparr>)"
  by (simp_all add: scrub_result_def syncCamera_def write_pose_eq)

lemma scrub_result_pose:
  "(position (cameras (scrub_result s sq r lt cam) cam),
    quaternion (cameras (scrub_result s sq r lt cam) cam),
    fov (cameras (scrub_result s sq r lt cam) cam))
   = tracks (clip (heap s r)) (scrub_time (heap s r) lt)"
  by (simp add: scrub_result_def syncCamera_def write_pose_eq)

lemma scrub_result_idem:
  assumes "r \<in> set sq"
  shows "scrub_result (scrub_result s sq r lt cam) sq r lt cam = scrub_result s sq r lt cam"
proof -
  let ?s' = "scrub_result s sq r lt cam"
  have st: "scrub_time (heap ?s' r) lt = scrub_time (heap s r) lt"
    by (simp add: scrub_result_fields scrub_time_def)
  have hp: "(\<lambda>x. if x \<in> set sq then shot_stop (heap ?s' x) else heap ?s' x)
       (r := (heap ?s' r)\<lparr>action :=
          \<lparr>time = scrub_time (heap s r) lt, timeScale = timeScale (action (heap ?s' r)),
           paused = True, scheduled = True\<rparr>\<rparr>) = heap ?s'"
    by (rule ext) (simp add: scrub_result_fields shot_stop_idem)
  have cm: "camera (heap ?s' r) = camera (heap s r)" "clip (heap ?s' r) = clip (heap s r)"
    by (simp_all add: scrub_result_fields)
  have "scrub_result ?s' sq r lt cam =
      syncCamera cam (camera (heap s r))
        (write_pose r (scrub_time (heap s r) lt) (?s'\<lparr>isPlaying := False, heap := heap ?s'\<rparr>))"
    using scrub_result_def [of ?s' sq r lt cam] by (simp only: st hp cm)
  also have "\<dots> = ?s'"
    by (simp add: scrub_result_def syncCamera_def write_pose_eq)
  finally show ?thesis .
qed


lemma scrub_scrubbed:
  assumes "sequence s = Some sq" and "sq \<noteq> []" and "scrub_target s t sq = (r, lt)"
  shows "scrub t cam s = Inr (scrub_result s sq r lt cam)
       \<and> scrubbed s r lt cam (scrub_result s sq r lt cam)"
  using scrub_eq [OF assms] scrub_result_pose [of s sq r lt cam]
  by (simp add: scrubbed_def scrub_result_fields)

lemma demo_ab_eff:
  "getEffectiveDuration (heap demo_ab 0) = Fin 2"
  "getEffectiveDuration (heap demo_ab (Suc 0)) = Fin 3"
  by (simp_all add: demo_defs getEffectiveDuration_def)

lemma no_negative_duration_demo_ab: "no_negative_duration demo_ab [0, 1]"
  by (simp add: no_negative_duration_def demo_ab_eff)

lemma scrub_selects_target:
  assumes "sequence s = Some sq" and "sq \<noteq> []" and "scrub_target s t sq = (r, lt)"
  shows "scrub_selects t cam s sq r lt"
  using scrub_scrubbed [OF assms, of cam] assms(3)
  by (simp add: scrub_selects_def)

lemma scrub_selects_first:
  assumes "sequence s = Some sq" and "sq \<noteq> []" and "i < length sq"
    and "in_shot s sq t i" and "\<forall>j < i. \<not> in_shot s sq t j"
  shows "scrub_selects t cam s sq (sq ! i) (js_sub t (shot_start s sq i))"
proof -
  have "scrub_loop s t (Fin 0) sq = Some (sq ! i, js_sub t (start_from s (Fin 0) sq i))"
    using assms(3,4,5) by (intro scrub_loop_first) (simp_all add: in_shot_eq_from)
  then have "scrub_target s t sq = (sq ! i, js_sub t (shot_start s sq i))"
    by (simp add: scrub_target_def shot_start_from)
  then show ?thesis
    by (rule scrub_selects_target [OF assms(1,2)])
qed

lemma scrub_selects_last:
  assumes "sequence s = Some sq" and "sq \<noteq> []" and "\<forall>i < length sq. \<not> in_shot s sq t i"
  shows "scrub_loop s t (Fin 0) sq = None
       \<and> scrub_selects t cam s sq (last sq) (getEffectiveDuration (heap s (last sq)))"
proof -
  have none: "scrub_loop s t (Fin 0) sq = None"
    using assms(3) by (intro scrub_loop_none) (simp add: in_shot_eq_from)
  then have "scrub_target s t sq = (last sq, getEffectiveDuration (heap s (last sq)))"
    by (simp add: scrub_target_def Let_def)
  with none scrub_selects_target [OF assms(1,2)] show ?thesis
    by blast
qed

lemma demo_reversed_facts:
  "sequence demo_reversed = Some [0, 1]"
  "getEffectiveDuration (heap demo_reversed 0) = Fin 2"
  "getEffectiveDuration (heap demo_reversed (Suc 0)) = Fin (- 1)"
  by (simp_all add: demo_reversed_def demo_defs setShotDuration_def setDuration_def
        getEffectiveDuration_def Let_def)

lemma demo_reversed_first_facts:
  "sequence demo_reversed_first = Some [0, 1, 2]"
  "getEffectiveDuration (heap demo_reversed_first 0) = Fin (- 2)"
  "getEffectiveDuration (heap demo_reversed_first (Suc 0)) = Fin 3"
  "getEffectiveDuration (heap demo_reversed_first 2) = Fin 0"
  by (simp_all add: demo_reversed_first_def demo_defs setShotDuration_def setDuration_def
        getEffectiveDuration_def Let_def)

lemma shot_start_demo_ab:
  "shot_start demo_ab [0, 1] 1 = Fin 2"
  "shot_start demo_ab [0, 1] (length [0 :: ref, 1]) = Fin 5"
  by (simp_all add: shot_start_def demo_ab_eff)

text \<open>
  C1. The claim, for every sequence that is not empty, that a time at or beyond the
  end of the last shot selects the last shot fails when a shot has a negative
  effective duration. With \<open>b\<close> given the target duration -1, the sequence \<open>a, b\<close>
  ends at 1, and \<open>scrub\<close> at 1.5 selects \<open>a\<close> at 1.5.
\<close>

theorem C1_reversed_shot_counterexample:
  "sequence demo_reversed = Some [0, 1]
   \<and> getEffectiveDuration (heap demo_reversed 1) = Fin (- 1)
   \<and> shot_start demo_reversed [0, 1] 2 = Fin 1
   \<and> js_ge (Fin (3/2)) (shot_start demo_reversed [0, 1] 2)
   \<and> scrub_target demo_reversed (Fin (3/2)) [0, 1] = (0, Fin (3/2))
   \<and> scrub_target demo_reversed (Fin (3/2)) [0, 1]
       \<noteq> (1, getEffectiveDuration (heap demo_reversed 1))"
  by (simp add: demo_reversed_facts shot_start_def scrub_target_def js_sub_def Let_def)

text \<open>
  C1, amended. For every sequence that is not empty: \<open>scrub\<close> selects the first shot
  whose interval holds the time, at the local time \<open>t - start\<close>, and the last shot at
  its full effective duration if no interval holds the time. If no shot has a
  negative effective duration, the intervals do not overlap, so \<open>scrub\<close> selects the
  shot whose interval holds the time, and a time at or beyond the end of the last shot
  lies in no interval, so \<open>scrub\<close> selects the last shot at its full effective
  duration. With shots of 2 and 3 seconds, 2.5 selects the second shot at 0.5 and 10
  selects it at 3.
\<close>

theorem C1_scrub_selects:
  assumes "sequence s = Some sq" and "sq \<noteq> []"
  shows "(\<forall>i < length sq. in_shot s sq t i \<and> (\<forall>j < i. \<not> in_shot s sq t j) \<longrightarrow>
            scrub_selects t cam s sq (sq ! i) (js_sub t (shot_start s sq i)))
       \<and> ((\<forall>i < length sq. \<not> in_shot s sq t i) \<longrightarrow>
            scrub_selects t cam s sq (last sq) (getEffectiveDuration (heap s (last sq))))
       \<and> (no_negative_duration s sq \<longrightarrow>
            (\<forall>i < length sq. in_shot s sq t i \<longrightarrow>
               scrub_selects t cam s sq (sq ! i) (js_sub t (shot_start s sq i)))
          \<and> (js_ge t (shot_start s sq (length sq)) \<longrightarrow>
               scrub_selects t cam s sq (last sq) (getEffectiveDuration (heap s (last sq)))))"
proof (intro conjI allI impI)
  fix i assume "i < length sq" "in_shot s sq t i \<and> (\<forall>j < i. \<not> in_shot s sq t j)"
  then show "scrub_selects t cam s sq (sq ! i) (js_sub t (shot_start s sq i))"
    using scrub_selects_first [OF assms] by blast
next
  assume "\<forall>i < length sq. \<not> in_shot s sq t i"
  then show "scrub_selects t cam s sq (last sq) (getEffectiveDuration (heap s (last sq)))"
    using scrub_selects_last [OF assms] by blast
next
  fix i assume nn: "no_negative_duration s sq" and i: "i < length sq" "in_shot s sq t i"
  have "\<forall>j < i. \<not> in_shot s sq t j"
    using not_in_shot_before [OF nn, of t i] i by (simp add: in_shot_def)
  with i show "scrub_selects t cam s sq (sq ! i) (js_sub t (shot_start s sq i))"
    using scrub_selects_first [OF assms] by blast
next
  assume nn: "no_negative_duration s sq" and "js_ge t (shot_start s sq (length sq))"
  then have "\<forall>i < length sq. \<not> in_shot s sq t i"
    using not_in_shot_before [OF nn, of t "length sq"] by simp
  then show "scrub_selects t cam s sq (last sq) (getEffectiveDuration (heap s (last sq)))"
    using scrub_selects_last [OF assms] by blast
qed

theorem C1_scrub_selects_witness:
  "sequence demo_ab = Some [0, 1] \<and> no_negative_duration demo_ab [0, 1]
   \<and> in_shot demo_ab [0, 1] (Fin (5/2)) 1
   \<and> scrub_selects (Fin (5/2)) 9 demo_ab [0, 1] 1 (Fin (1/2))
   \<and> js_ge (Fin 10) (shot_start demo_ab [0, 1] (length [0 :: ref, 1]))
   \<and> scrub_selects (Fin 10) 9 demo_ab [0, 1] 1 (Fin 3)"
proof -
  have ne: "[0, 1] \<noteq> ([] :: ref list)" by simp
  have a: "in_shot demo_ab [0, 1] (Fin (5/2)) 1"
    using shot_start_demo_ab by (simp add: in_shot_def demo_ab_eff)
  have b: "js_ge (Fin 10) (shot_start demo_ab [0, 1] (length [0 :: ref, 1]))"
    using shot_start_demo_ab by simp
  from C1_scrub_selects [OF sequence_demo_ab ne, of "Fin (5/2)" 9]
    no_negative_duration_demo_ab a
    shot_start_demo_ab
  have c: "scrub_selects (Fin (5/2)) 9 demo_ab [0, 1] 1 (Fin (1/2))"
    by (auto simp: js_sub_def)
  from C1_scrub_selects [OF sequence_demo_ab ne, of "Fin 10" 9]
    no_negative_duration_demo_ab b
  have d: "scrub_selects (Fin 10) 9 demo_ab [0, 1] 1 (Fin 3)"
    by (auto simp: demo_ab_eff)
  from sequence_demo_ab no_negative_duration_demo_ab a b c d show ?thesis
    by blast
qed

text \<open>
  C10. The claim, for every sequence that is not empty, that a negative time matches
  no interval fails when a shot has a negative effective duration. With \<open>a\<close> given
  the target duration -2, the sequence \<open>a, b, still\<close> has \<open>b\<close> from -2 to 1, and
  \<open>scrub\<close> at -1 selects \<open>b\<close> at 1, not the last shot.
\<close>

theorem C10_reversed_shot_counterexample:
  "sequence demo_reversed_first = Some [0, 1, 2]
   \<and> getEffectiveDuration (heap demo_reversed_first 0) = Fin (- 2)
   \<and> js_lt (Fin (- 1)) (Fin 0)
   \<and> in_shot demo_reversed_first [0, 1, 2] (Fin (- 1)) 1
   \<and> scrub_target demo_reversed_first (Fin (- 1)) [0, 1, 2] = (1, Fin 1)
   \<and> scrub_target demo_reversed_first (Fin (- 1)) [0, 1, 2]
       \<noteq> (2, getEffectiveDuration (heap demo_reversed_first 2))"
  by (simp add: demo_reversed_first_facts in_shot_def shot_start_def scrub_target_def
        js_sub_def Let_def)


text \<open>
  C10, amended. For every sequence that is not empty: a time in no interval leaves
  the loop of \<open>scrub\<close> without a shot, and \<open>scrub\<close> selects the last shot at its
  full effective duration. If no shot has a negative effective duration, a negative
  time lies in no interval, so \<open>scrub\<close> selects the last shot at its full effective
  duration, as it does beyond the end, and not the first shot at 0.
\<close>

theorem C10_negative_time_selects_last:
  assumes "sequence s = Some sq" and "sq \<noteq> []"
  shows "((\<forall>i < length sq. \<not> in_shot s sq t i) \<longrightarrow>
            scrub_loop s t (Fin 0) sq = None
          \<and> scrub_selects t cam s sq (last sq) (getEffectiveDuration (heap s (last sq))))
       \<and> (no_negative_duration s sq \<and> js_lt t (Fin 0) \<longrightarrow>
            (\<forall>i < length sq. \<not> in_shot s sq t i)
          \<and> scrub_loop s t (Fin 0) sq = None
          \<and> scrub_selects t cam s sq (last sq) (getEffectiveDuration (heap s (last sq))))"
proof -
  have last: "scrub_loop s t (Fin 0) sq = None
      \<and> scrub_selects t cam s sq (last sq) (getEffectiveDuration (heap s (last sq)))"
    if "\<forall>i < length sq. \<not> in_shot s sq t i"
    using scrub_selects_last [OF assms that] .
  have "\<forall>i < length sq. \<not> in_shot s sq t i"
    if "no_negative_duration s sq \<and> js_lt t (Fin 0)"
    using not_in_shot_negative that by blast
  with last show ?thesis
    by blast
qed

theorem C10_negative_time_selects_last_witness:
  "sequence demo_ab = Some [0, 1] \<and> no_negative_duration demo_ab [0, 1]
   \<and> js_lt (Fin (- 1)) (Fin 0)
   \<and> scrub_loop demo_ab (Fin (- 1)) (Fin 0) [0, 1] = None
   \<and> scrub_selects (Fin (- 1)) 9 demo_ab [0, 1] 1 (Fin 3)"
proof -
  have ne: "[0, 1] \<noteq> ([] :: ref list)" by simp
  have neg: "js_lt (Fin (- 1)) (Fin 0)" by simp
  from C10_negative_time_selects_last [OF sequence_demo_ab ne, of "Fin (- 1)" 9]
    no_negative_duration_demo_ab neg
  have "scrub_loop demo_ab (Fin (- 1)) (Fin 0) [0, 1] = None
      \<and> scrub_selects (Fin (- 1)) 9 demo_ab [0, 1] 1 (Fin 3)"
    by (auto simp: demo_ab_eff)
  with sequence_demo_ab no_negative_duration_demo_ab neg show ?thesis
    by blast
qed


text \<open>
  C8. The claim, for every configured sequence, that \<open>scrub\<close> leaves the sequencer not
  playing fails for the empty sequence: \<open>scrub\<close> returns at once and a sequencer that
  was playing stays playing.
\<close>

theorem C8_scrub_leaves_playing_counterexample:
  "sequence (config [] demo_playing) = Some []
   \<and> isPlaying (config [] demo_playing)
   \<and> scrub (Fin 1) 9 (config [] demo_playing) = Inr (config [] demo_playing)"
  by (simp add: scrub_def config_def demo_playing_eq)

text \<open>
  C8, amended. With no sequence or an empty one \<open>scrub\<close> changes nothing. With a
  sequence that is not empty, a second \<open>scrub\<close> at the same time and camera leaves the
  state of the first, so the camera is given the same pose both times; the playhead
  is that of the state before, the sequencer is not playing, no callback is invoked
  and the index is not advanced; one shot of the sequence is left paused and
  scheduled, and every other shot of the sequence is left stopped.
\<close>

theorem C8_scrub_idempotent:
  "(sequence s = None \<or> sequence s = Some [] \<longrightarrow> scrub t cam s = Inr s)
   \<and> (sequence s = Some sq \<and> sq \<noteq> [] \<longrightarrow>
        (\<exists>s'. scrub t cam s = Inr s'
          \<and> scrub t cam s' = Inr s'
          \<and> playheadTime s' = playheadTime s
          \<and> \<not> isPlaying s'
          \<and> trace s' = trace s
          \<and> currentShotIndex s' = currentShotIndex s
          \<and> (\<exists>r \<in> set sq.
                paused (action (heap s' r)) \<and> scheduled (action (heap s' r))
                \<and> (\<forall>x \<in> set sq. x \<noteq> r \<longrightarrow>
                      action (heap s' x) = action_stop (action (heap s x))))))"
proof (intro conjI impI)
  assume "sequence s = None \<or> sequence s = Some []"
  then show "scrub t cam s = Inr s"
    by (auto simp: scrub_def)
next
  assume a: "sequence s = Some sq \<and> sq \<noteq> []"
  obtain r lt where tgt: "scrub_target s t sq = (r, lt)"
    by (cases "scrub_target s t sq")
  let ?s' = "scrub_result s sq r lt cam"
  have r: "r \<in> set sq"
    using scrub_target_in_set a tgt by blast
  have first: "scrub t cam s = Inr ?s'"
    using scrub_eq [of s sq t r lt cam] a tgt by simp
  have "scrub_target ?s' t sq = scrub_target s t sq"
    using a
    by (intro scrub_target_cong)
       (auto simp: scrub_result_fields getEffectiveDuration_def shot_stop_fields)
  with tgt have tgt': "scrub_target ?s' t sq = (r, lt)"
    by simp
  have "scrub t cam ?s' = Inr (scrub_result ?s' sq r lt cam)"
    using scrub_eq [of ?s' sq t r lt cam] a tgt'
    by (simp add: scrub_result_fields)
  then have second: "scrub t cam ?s' = Inr ?s'"
    by (simp add: scrub_result_idem [OF r])
  have others: "\<forall>x \<in> set sq. x \<noteq> r \<longrightarrow> action (heap ?s' x) = action_stop (action (heap s x))"
    by (simp add: scrub_result_fields shot_stop_def)
  show "\<exists>s'. scrub t cam s = Inr s'
          \<and> scrub t cam s' = Inr s'
          \<and> playheadTime s' = playheadTime s
          \<and> \<not> isPlaying s'
          \<and> trace s' = trace s
          \<and> currentShotIndex s' = currentShotIndex s
          \<and> (\<exists>r \<in> set sq.
                paused (action (heap s' r)) \<and> scheduled (action (heap s' r))
                \<and> (\<forall>x \<in> set sq. x \<noteq> r \<longrightarrow>
                      action (heap s' x) = action_stop (action (heap s x))))"
    using first second r others
    by (intro exI [of _ ?s'] conjI bexI [of _ r]) (simp_all add: scrub_result_fields)
qed

theorem C8_scrub_idempotent_witness:
  "(sequence demo = None \<or> sequence demo = Some [])
   \<and> scrub (Fin 1) 9 demo = Inr demo
   \<and> sequence demo_playing = Some [0, 1]
   \<and> (\<exists>s'. scrub (Fin 1) 9 demo_playing = Inr s' \<and> scrub (Fin 1) 9 s' = Inr s'
          \<and> \<not> isPlaying s' \<and> playheadTime s' = playheadTime demo_playing)"
proof -
  have a: "sequence demo = None \<or> sequence demo = Some []"
    by (simp add: demo_def)
  have b: "sequence demo_playing = Some [0, 1] \<and> [0, 1] \<noteq> ([] :: ref list)"
    by (simp add: demo_playing_eq)
  from C8_scrub_idempotent [of demo "Fin 1" 9 "[]"] a
  have c: "scrub (Fin 1) 9 demo = Inr demo"
    by blast
  from C8_scrub_idempotent [of demo_playing "Fin 1" 9 "[0, 1]"] b
  have "\<exists>s'. scrub (Fin 1) 9 demo_playing = Inr s' \<and> scrub (Fin 1) 9 s' = Inr s'
          \<and> \<not> isPlaying s' \<and> playheadTime s' = playheadTime demo_playing"
    by blast
  with a b c show ?thesis
    by blast
qed

subsection \<open>The update tick\<close>

lemma check_frameScripts_eq:
  "check_frameScripts ph k scripts =
     (mark_due ph scripts,
      map (\<lambda>i. FrameScriptCalled (k + i) (callback (scripts ! i)))
        (filter (\<lambda>i. due ph (scripts ! i)) [0..<length scripts]))"
proof (induction scripts arbitrary: k)
  case Nil
  show ?case by (simp add: mark_due_def)
next
  case (Cons sc rest)
  have upt: "[0..<length (sc # rest)] = 0 # map Suc [0..<length rest]"
    by (simp add: upt_conv_Cons map_Suc_upt del: upt_Suc)
  show ?case
    unfolding upt
    by (simp add: Cons.IH mark_due_def due_def filter_map comp_def)
qed

lemma run_frameScripts_eq:
  "run_frameScripts s =
     s\<lparr>frameScripts := mark_due (playheadTime s) (frameScripts s),
       trace := trace s @ fired_events (playheadTime s) (frameScripts s)\<rparr>"
  by (simp add: run_frameScripts_def check_frameScripts_eq fired_events_def)

lemma playCurrentShot_frame:
  assumes "0 \<le> currentShotIndex s"
  shows "\<exists>s'. playCurrentShot s = Inr s' \<and> frameScripts s' = frameScripts s
     \<and> playheadTime s' = playheadTime s \<and> cameras s' = cameras s \<and> trace s' = trace s
     \<and> (\<forall>r. camera (heap s' r) = camera (heap s r) \<and> clip (heap s' r) = clip (heap s r))"
  using assms
  by (auto simp: playCurrentShot_def shot_play_def Let_def split: option.splits)

lemma onShotFinished_frame:
  assumes "sequence s \<noteq> None" and "0 \<le> currentShotIndex s"
  shows "\<exists>s' pre. onShotFinished s = Inr s' \<and> frameScripts s' = frameScripts s
     \<and> playheadTime s' = playheadTime s \<and> cameras s' = cameras s
     \<and> trace s' = trace s @ pre \<and> completion_only pre
     \<and> (\<forall>r. camera (heap s' r) = camera (heap s r) \<and> clip (heap s' r) = clip (heap s r))"
proof -
  obtain sq where sq: "sequence s = Some sq" using assms(1) by auto
  let ?s1 = "s\<lparr>currentShotIndex := currentShotIndex s + 1\<rparr>"
  show ?thesis
  proof (cases "currentShotIndex ?s1 \<ge> int (length sq)")
    case False
    with playCurrentShot_frame [of ?s1] assms(2) sq show ?thesis
      by (auto simp: onShotFinished_def Let_def)
  next
    case True
    show ?thesis
    proof (cases "loop s")
      case True
      with \<open>currentShotIndex ?s1 \<ge> int (length sq)\<close>
        playCurrentShot_frame [of "?s1\<lparr>currentShotIndex := 0\<rparr>"] sq
      show ?thesis
        by (auto simp: onShotFinished_def Let_def)
    next
      case False
      with \<open>currentShotIndex ?s1 \<ge> int (length sq)\<close> sq show ?thesis
        by (auto simp: onShotFinished_def Let_def split: option.splits)
    qed
  qed
qed

lemma mixer_update_frame:
  assumes "sequence s \<noteq> None" and "0 \<le> currentShotIndex s"
  shows "\<exists>s' pre. mixer_update r delta s = Inr s' \<and> frameScripts s' = frameScripts s
     \<and> playheadTime s' = playheadTime s
     \<and> trace s' = trace s @ pre \<and> completion_only pre
     \<and> (\<forall>c. c \<noteq> camera (heap s r) \<longrightarrow> cameras s' c = cameras s c)"
proof (cases "scheduled (action (heap s r))")
  case False
  then show ?thesis
    by (simp add: mixer_update_def)
next
  case True
  obtain a ct fin where adv:
    "action_advance (duration (clip (heap s r))) delta (action (heap s r)) = (a, ct, fin)"
    by (cases "action_advance (duration (clip (heap s r))) delta (action (heap s r))")
  let ?s1 = "s\<lparr>heap := (heap s)(r := (heap s r)\<lparr>action := a\<rparr>)\<rparr>"
  show ?thesis
  proof (cases "fin \<and> onFinishCallback (heap s r) \<noteq> None")
    case False
    then have "(if fin then dispatch_finished r ?s1 else Inr ?s1) = Inr ?s1"
      by (auto simp: dispatch_finished_def)
    with True adv show ?thesis
      by (simp add: mixer_update_def Let_def write_pose_eq)
  next
    case fired: True
    then have d: "(if fin then dispatch_finished r ?s1 else Inr ?s1) = onShotFinished ?s1"
      by (auto simp: dispatch_finished_def split: finish_handler.splits)
    from onShotFinished_frame [of ?s1] assms
    obtain s2 pre where s2: "onShotFinished ?s1 = Inr s2" "frameScripts s2 = frameScripts s"
      "playheadTime s2 = playheadTime s" "cameras s2 = cameras s"
      "trace s2 = trace s @ pre" "completion_only pre"
      "camera (heap s2 r) = camera (heap ?s1 r)"
      by auto
    with True adv d show ?thesis
      by (simp add: mixer_update_def Let_def write_pose_eq)
  qed
qed


lemma distinct_fired_events: "distinct (fired_events ph scripts)"
  by (simp add: fired_events_def distinct_map inj_on_def)

lemma update_step:
  assumes "isPlaying s" and "sequence s = Some sq"
    and "0 \<le> currentShotIndex s" and "nat (currentShotIndex s) < length sq"
    and "r = sq ! nat (currentShotIndex s)"
    and "ph = js_add (playheadTime s) delta"
  shows "\<exists>s3 s' pre.
       shot_update r delta ((mirrored s r)\<lparr>playheadTime := ph\<rparr>) = Inr s3
     \<and> update delta s = Inr s'
     \<and> s' = run_frameScripts s3
     \<and> playheadTime s' = ph
     \<and> (\<forall>tc. targetCamera s = Some tc \<and> tc \<noteq> camera (heap s r) \<longrightarrow>
           position (cameras s' tc) = position (cameras s (camera (heap s r)))
         \<and> quaternion (cameras s' tc) = quaternion (cameras s (camera (heap s r)))
         \<and> fov (cameras s' tc) = fov (cameras s (camera (heap s r))))
     \<and> trace s' = trace s @ pre @ fired_events ph (frameScripts s)
     \<and> completion_only pre
     \<and> distinct (fired_events ph (frameScripts s))
     \<and> frameScripts s' = mark_due ph (frameScripts s)"
proof -
  let ?s2 = "(mirrored s r)\<lparr>playheadTime := ph\<rparr>"
  have m: "sequence ?s2 \<noteq> None" "0 \<le> currentShotIndex ?s2"
    "frameScripts ?s2 = frameScripts s" "trace ?s2 = trace s"
    "camera (heap ?s2 r) = camera (heap s r)"
    using assms(2,3) by (auto simp: mirrored_def syncCamera_def split: option.splits)
  from mixer_update_frame [OF m(1,2), of r delta] m
  obtain s3 pre where s3: "shot_update r delta ?s2 = Inr s3"
    "frameScripts s3 = frameScripts s" "playheadTime s3 = ph"
    "trace s3 = trace s @ pre" "completion_only pre"
    "\<forall>c. c \<noteq> camera (heap s r) \<longrightarrow> cameras s3 c = cameras ?s2 c"
    by (auto simp: shot_update_def)
  have u: "update delta s = Inr (run_frameScripts s3)"
    using assms s3(1)
    by (simp add: update_def mirrored_def syncCamera_def Let_def split: option.splits)
  have cam: "position (cameras s3 tc) = position (cameras s (camera (heap s r)))
         \<and> quaternion (cameras s3 tc) = quaternion (cameras s (camera (heap s r)))
         \<and> fov (cameras s3 tc) = fov (cameras s (camera (heap s r)))"
    if "targetCamera s = Some tc" "tc \<noteq> camera (heap s r)" for tc
    using that s3(6) by (simp add: mirrored_def syncCamera_def)
  show ?thesis
    using s3 u cam
    by (intro exI [of _ s3] exI [of _ "run_frameScripts s3"] exI [of _ pre])
       (simp add: run_frameScripts_eq distinct_fired_events)
qed

lemma demo_scripted_eq:
  "demo_scripted = demo_playing\<lparr>onShotsCompleted := None,
     frameScripts := [\<lparr>script_time = Fin 2, callback = VoidFunction ''cue'', called = False\<rparr>]\<rparr>"
  by (simp add: demo_scripted_def demo_playing_eq demo_defs addFrameScript_def play_def
        step_defs)




subsection \<open>Frame scripts fire once\<close>

lemma fired_append: "fired i (xs @ ys) = fired i xs + fired i ys"
proof (induction xs)
  case Nil
  show ?case by simp
next
  case (Cons x xs)
  then show ?case by (cases x) auto
qed

lemma session_quiet:
  "trace s' = trace s \<Longrightarrow> (\<forall>i. was_called s i \<longrightarrow> was_called s' i) \<Longrightarrow> session s [] s'"
  by (simp add: session_def)

lemma session_refl: "trace s' = trace s \<Longrightarrow> frameScripts s' = frameScripts s \<Longrightarrow> session s [] s'"
  by (simp add: session_def was_called_def)

lemma session_trans:
  assumes "session s evs s1" and "session s1 evs' s2"
  shows "session s (evs @ evs') s2"
proof -
  have "fired i (evs @ evs') \<le> 1" for i
  proof (cases "0 < fired i evs")
    case True
    with assms(1) have "was_called s1 i" by (simp add: session_def)
    with assms(2) have "fired i evs' = 0" by (auto simp: session_def)
    with assms(1) show ?thesis by (simp add: fired_append session_def)
  next
    case False
    with assms(2) show ?thesis by (simp add: fired_append session_def)
  qed
  moreover have "\<not> was_called s i \<and> was_called s2 i" if "0 < fired i (evs @ evs')" for i
  proof (cases "0 < fired i evs")
    case True
    with assms show ?thesis by (simp add: session_def)
  next
    case False
    with that have "0 < fired i evs'" by (simp add: fired_append)
    with assms show ?thesis by (auto simp: session_def)
  qed
  ultimately show ?thesis
    using assms by (simp add: session_def)
qed

lemma fired_completion_only: "completion_only pre \<Longrightarrow> fired i pre = 0"
  by (induction pre rule: completion_only.induct) simp_all

lemma fired_map_filter:
  "fired i (map (\<lambda>j. FrameScriptCalled j (f j)) (filter P js)) = length (filter (\<lambda>j. j = i \<and> P j) js)"
  by (induction js) auto

lemma length_filter_index:
  "length (filter (\<lambda>j. j = i \<and> P j) [0..<n]) = (if i < n \<and> P i then 1 else 0)"
  by (induction n) auto

lemma fired_fired_events:
  "fired i (fired_events ph scripts) = (if i < length scripts \<and> due ph (scripts ! i) then 1 else 0)"
  by (simp add: fired_events_def fired_map_filter length_filter_index)

lemma mark_due_called:
  "i < length scripts \<Longrightarrow>
     called (mark_due ph scripts ! i) = (called (scripts ! i) \<or> due ph (scripts ! i))"
  by (simp add: mark_due_def)

lemma session_run_frameScripts: "session s (fired_events (playheadTime s) (frameScripts s)) (run_frameScripts s)"
  by (auto simp: session_def run_frameScripts_eq was_called_def fired_fired_events
        mark_due_called mark_due_def due_def)

lemma scrub_frame:
  assumes "scrub t cam s = Inr s'"
  shows "trace s' = trace s \<and> frameScripts s' = frameScripts s"
proof (cases "sequence s = None \<or> sequence s = Some []")
  case True
  with assms show ?thesis by (auto simp: scrub_def)
next
  case False
  then obtain sq where sq: "sequence s = Some sq" "sq \<noteq> []" by auto
  obtain r lt where "scrub_target s t sq = (r, lt)"
    by (cases "scrub_target s t sq")
  from scrub_eq [OF sq this, of cam] assms show ?thesis
    by (auto simp: scrub_result_fields)
qed

lemma session_completion:
  "trace s3 = trace s @ pre \<Longrightarrow> completion_only pre \<Longrightarrow> frameScripts s3 = frameScripts s
     \<Longrightarrow> session s pre s3"
  by (simp add: session_def was_called_def fired_completion_only)

lemma update_session:
  assumes "update delta s = Inr s'"
  shows "\<exists>evs. session s evs s'"
proof (cases "sequence s = None \<or> \<not> isPlaying s \<or> currentShotIndex s < 0")
  case True
  with assms have "s' = s" by (auto simp: update_def split: option.splits)
  then show ?thesis using session_refl [of s s] by auto
next
  case False
  then obtain sq where sq: "sequence s = Some sq" "isPlaying s" "0 \<le> currentShotIndex s"
    by auto
  have "\<exists>s3 pre. s' = run_frameScripts s3 \<and> trace s3 = trace s @ pre
      \<and> completion_only pre \<and> frameScripts s3 = frameScripts s"
  proof (cases "nat (currentShotIndex s) < length sq")
    case True
    from update_step [OF sq(2,1,3) True refl refl, of delta] assms
    obtain s3 pre where "s' = run_frameScripts s3"
      "trace s' = trace s @ pre @ fired_events (js_add (playheadTime s) delta) (frameScripts s)"
      "completion_only pre" "frameScripts s' = mark_due (js_add (playheadTime s) delta) (frameScripts s)"
      "playheadTime s' = js_add (playheadTime s) delta"
      "shot_update (sq ! nat (currentShotIndex s)) delta
         ((mirrored s (sq ! nat (currentShotIndex s)))\<lparr>playheadTime := js_add (playheadTime s) delta\<rparr>) = Inr s3"
      by auto
    moreover from mixer_update_frame
        [of "(mirrored s (sq ! nat (currentShotIndex s)))\<lparr>playheadTime := js_add (playheadTime s) delta\<rparr>"
            "sq ! nat (currentShotIndex s)" delta] sq calculation(6)
    obtain pre' where "trace s3 = trace s @ pre'" "completion_only pre'"
      "frameScripts s3 = frameScripts s"
      by (auto simp: shot_update_def mirrored_def syncCamera_def split: option.splits)
    ultimately show ?thesis by blast
  next
    case False
    with assms sq have "s' = run_frameScripts (s\<lparr>playheadTime := js_add (playheadTime s) delta\<rparr>)"
      by (auto simp: update_def Let_def split: option.splits if_splits)
    then show ?thesis
      by (intro exI [of _ "s\<lparr>playheadTime := js_add (playheadTime s) delta\<rparr>"] exI [of _ "[]"])
         simp
  qed
  then obtain s3 pre where s3: "s' = run_frameScripts s3" "trace s3 = trace s @ pre"
    "completion_only pre" "frameScripts s3 = frameScripts s"
    by blast
  from session_trans [OF session_completion [OF s3(2,3,4)] session_run_frameScripts [of s3]] s3(1)
  show ?thesis by blast
qed

lemma perform_session:
  assumes "\<not> is_play c" and "perform c s = Inr s'"
  shows "\<exists>evs. session s evs s'"
proof (cases c)
  case (Config x)
  with assms show ?thesis
    by (auto simp: config_def intro!: exI [of _ "[]"] session_refl)
next
  case (AddFrameScript f cb b)
  with assms show ?thesis
    by (auto simp: addFrameScript_def was_called_def nth_append
          intro!: exI [of _ "[]"] session_quiet)
next
  case (SetShotDuration n d)
  with assms show ?thesis
    by (auto simp: setShotDuration_def setDuration_def Let_def
          intro!: exI [of _ "[]"] session_refl split: option.splits)
next
  case (Play x)
  with assms show ?thesis by simp
next
  case (Scrub t cam)
  with assms scrub_frame [of t cam s s'] show ?thesis
    by (auto intro!: exI [of _ "[]"] session_refl)
next
  case (Update d)
  with assms update_session show ?thesis by auto
next
  case (SetLoop b)
  with assms show ?thesis
    by (auto intro!: exI [of _ "[]"] session_refl)
next
  case (SetTargetCamera tc)
  with assms show ?thesis
    by (auto intro!: exI [of _ "[]"] session_refl)
qed

lemma run_session:
  assumes "\<forall>c \<in> set cs. \<not> is_play c" and "run cs s = Inr s'"
  shows "\<exists>evs. session s evs s'"
  using assms
proof (induction cs arbitrary: s)
  case Nil
  then show ?case using session_refl [of s s] by auto
next
  case (Cons c cs)
  from Cons.prems(2) obtain s1 where s1: "perform c s = Inr s1" "run cs s1 = Inr s'"
    by (auto split: sum.splits)
  from perform_session [OF _ s1(1)] Cons.prems(1) obtain e1 where "session s e1 s1" by auto
  moreover from Cons.IH [OF _ s1(2)] Cons.prems(1) obtain e2 where "session s1 e2 s'" by auto
  ultimately show ?case using session_trans by blast
qed

lemma playCurrentShot_scripts:
  "playCurrentShot s = Inr s' \<Longrightarrow> frameScripts s' = frameScripts s \<and> trace s' = trace s"
  by (auto simp: playCurrentShot_def Let_def split: option.splits if_splits)

lemma onShotFinished_scripts:
  "onShotFinished s = Inr s' \<Longrightarrow> frameScripts s' = frameScripts s"
  by (auto simp: onShotFinished_def Let_def split: option.splits if_splits
        dest!: playCurrentShot_scripts)

lemma play_trace: "play oc s = Inr s' \<Longrightarrow> trace s' = trace s"
  by (auto simp: play_def split: if_splits dest!: playCurrentShot_scripts)

lemma demo_looping_run:
  "case run [Update (Fin (21/10)), Update (Fin 3), Update (Fin (21/10))] demo_looping of
     Inr x \<Rightarrow> trace x = [FrameScriptCalled 0 (VoidFunction ''cue'')]
            \<and> currentShotIndex x = 1 \<and> playheadTime x = Fin (36/5)
   | Inl _ \<Rightarrow> False"
  by (simp add: demo_looping_def demo_scripted_eq demo_playing_eq demo_defs step_defs)

lemma demo_looping_replay:
  "case run [Play None, Update (Fin (21/10)), Update (Fin 3)] demo_looping of
     Inr x \<Rightarrow> trace x = [FrameScriptCalled 0 (VoidFunction ''cue'')]
   | Inl _ \<Rightarrow> False"
  by (simp add: demo_looping_def demo_scripted_eq demo_playing_eq demo_defs step_defs play_def)


lemma demo_looping_facts:
  "trace demo_looping = []"
  "sequence demo_looping = Some [0, 1]"
  "isPlaying demo_looping"
  by (simp_all add: demo_looping_def demo_scripted_eq demo_playing_eq demo_defs)

text \<open>
  C6. Over any calls of the interface other than \<open>play\<close>, updates that wrap around
  in loop mode included, the callback of a frame script is invoked at most once, not
  at all if its flag was set at the start, and only with its flag set afterwards; no
  set flag is cleared. The same holds for a session, a \<open>play\<close> followed by calls
  other than \<open>play\<close>. The shot-advance handler, which does the wrap, leaves the frame
  scripts as they are. (That \<open>play\<close> clears every flag is part of C4. In the loop of
  \<open>update\<close> the flag is set in the statement before the invocation.)
\<close>

theorem C6_fires_once_per_session:
  "((\<forall>c \<in> set cs. \<not> is_play c) \<and> run cs s = Inr s' \<longrightarrow>
      (\<exists>evs. trace s' = trace s @ evs
         \<and> (\<forall>i. fired i evs \<le> 1)
         \<and> (\<forall>i. was_called s i \<longrightarrow> was_called s' i \<and> fired i evs = 0)
         \<and> (\<forall>i. 0 < fired i evs \<longrightarrow> was_called s' i)))
   \<and> ((\<forall>c \<in> set cs. \<not> is_play c) \<and> run (Play onCompleted # cs) s = Inr s' \<longrightarrow>
      (\<exists>evs. trace s' = trace s @ evs \<and> (\<forall>i. fired i evs \<le> 1)))
   \<and> (onShotFinished s = Inr s' \<longrightarrow> frameScripts s' = frameScripts s)"
proof (intro conjI impI)
  assume a: "(\<forall>c \<in> set cs. \<not> is_play c) \<and> run cs s = Inr s'"
  then obtain evs where "session s evs s'"
    using run_session by blast
  then show "\<exists>evs. trace s' = trace s @ evs
         \<and> (\<forall>i. fired i evs \<le> 1)
         \<and> (\<forall>i. was_called s i \<longrightarrow> was_called s' i \<and> fired i evs = 0)
         \<and> (\<forall>i. 0 < fired i evs \<longrightarrow> was_called s' i)"
    by (intro exI [of _ evs]) (auto simp: session_def)
next
  assume a: "(\<forall>c \<in> set cs. \<not> is_play c) \<and> run (Play onCompleted # cs) s = Inr s'"
  then obtain s1 where s1: "play onCompleted s = Inr s1" "run cs s1 = Inr s'"
    by (auto split: sum.splits)
  with a obtain evs where "session s1 evs s'"
    using run_session by blast
  with play_trace [OF s1(1)] show "\<exists>evs. trace s' = trace s @ evs \<and> (\<forall>i. fired i evs \<le> 1)"
    by (intro exI [of _ evs]) (simp add: session_def)
next
  assume "onShotFinished s = Inr s'"
  then show "frameScripts s' = frameScripts s"
    by (rule onShotFinished_scripts)
qed


theorem C6_fires_once_per_session_witness:
  "(\<exists>s'. run [Update (Fin (21/10)), Update (Fin 3), Update (Fin (21/10))] demo_looping = Inr s'
        \<and> trace s' = [FrameScriptCalled 0 (VoidFunction ''cue'')]
        \<and> currentShotIndex s' = 1
        \<and> fired 0 (trace s') \<le> 1)
   \<and> (\<exists>s'. run [Play None, Update (Fin (21/10)), Update (Fin 3)] demo_looping = Inr s'
        \<and> fired 0 (trace s') \<le> 1)
   \<and> (\<exists>s'. onShotFinished (demo_last\<lparr>loop := True\<rparr>) = Inr s'
        \<and> frameScripts s' = frameScripts demo_last)"
proof -
  let ?cs = "[Update (Fin (21/10)), Update (Fin 3), Update (Fin (21/10))]"
  let ?cs' = "[Update (Fin (21/10)), Update (Fin 3)]"
  obtain s1 where s1: "run ?cs demo_looping = Inr s1"
    "trace s1 = [FrameScriptCalled 0 (VoidFunction ''cue'')]" "currentShotIndex s1 = 1"
    using demo_looping_run by (auto split: sum.splits)
  have np: "\<forall>c \<in> set ?cs. \<not> is_play c" by simp
  from C6_fires_once_per_session [where cs = ?cs and s = demo_looping and s' = s1] np s1(1)
  have a: "fired 0 (trace s1) \<le> 1"
    by (auto simp: demo_looping_facts)
  obtain s2 where s2: "run (Play None # ?cs') demo_looping = Inr s2"
    using demo_looping_replay by (auto split: sum.splits)
  have np': "\<forall>c \<in> set ?cs'. \<not> is_play c" by simp
  from C6_fires_once_per_session
         [where cs = ?cs' and s = demo_looping and s' = s2 and onCompleted = None] np' s2
  have b: "fired 0 (trace s2) \<le> 1"
    by (auto simp: demo_looping_facts)
  obtain s3 where s3: "onShotFinished (demo_last\<lparr>loop := True\<rparr>) = Inr s3"
    by (auto simp: onShotFinished_def playCurrentShot_def demo_last_facts Let_def)
  from C6_fires_once_per_session [where s = "demo_last\<lparr>loop := True\<rparr>" and s' = s3] s3
  have c: "frameScripts s3 = frameScripts demo_last"
    by simp
  from s1 a s2 b s3 c show ?thesis
    by blast
qed

subsection \<open>Reconfiguring during playback\<close>










end
